theory Spec2Isabelle
  imports
    Main
    "HOL-Library.Word"
    "HOL-Library.Finite_Map"
    "HOL-Library.Sublist"
    "HOL-Library.List_Lexorder"
    "HOL-Library.Signed_Division"
begin

unbundle bit_operations_syntax

section \<open>Bytes, addresses, hashes and errors\<close>

text \<open>
  Go byte slices are lists of 8-bit words. A slice that may be \<open>nil\<close> (a value returned
  by the trie) is a \<open>bytes option\<close>, \<open>None\<close> being \<open>nil\<close>.
  \<open>common.Address\<close> is \<open>[20]byte\<close> and \<open>common.Hash\<close> is \<open>[32]byte\<close>; both are
  carried as the byte lists that \<open>Bytes()\<close> returns, and a statement that needs the
  fixed width says so with \<open>AddressLength\<close>.
\<close>

type_synonym byte = "8 word"
type_synonym bytes = "byte list"
type_synonym address = bytes
type_synonym hash = bytes
type_synonym int64 = "64 word"

definition AddressLength :: nat where
  "AddressLength = 20"

text \<open>
  The errors of the package: the trie's \<open>*trie.MissingNodeError\<close>, which the code tests
  for with a type assertion, and the values built by \<open>errors.New\<close> and \<open>fmt.Errorf\<close>,
  which carry their message.
\<close>

datatype error = MissingNodeError | errorString string

definition errors_New :: "string \<Rightarrow> error" where
  "errors_New text = errorString text"

fun Error :: "error \<Rightarrow> string" where
  "Error MissingNodeError = ''missing trie node''"
| "Error (errorString s) = s"

text \<open>The test \<open>err != nil\<close> followed by \<open>if _, ok := err.(*trie.MissingNodeError); !ok\<close>.\<close>

fun notMissingNode :: "error option \<Rightarrow> bool" where
  "notMissingNode None = False"
| "notMissingNode (Some MissingNodeError) = False"
| "notMissingNode (Some (errorString s)) = True"

text \<open>\<open>bytes.Equal\<close>: a nil slice and an empty slice are equal.\<close>

fun contents :: "bytes option \<Rightarrow> bytes" where
  "contents None = []"
| "contents (Some b) = b"

definition bytes_Equal :: "bytes option \<Rightarrow> bytes option \<Rightarrow> bool" where
  "bytes_Equal a b = (contents a = contents b)"

section \<open>The authenticated map\<close>

text \<open>
  Package \<open>trie\<close> is not among the sources; the manager uses it through the interface
  the spec calls the Authenticated Map: a keyed store of byte strings with get, put,
  delete, iteration over the entries under a key prefix, and a root hash that stands
  for its content. A trie is modelled by its content, a finite map from keys to values,
  with every node resolvable: the operations return the \<open>nil\<close> error, and the branches
  in which the callers handle an error are kept as the source has them.
\<close>

type_synonym trie = "(bytes, bytes) fmap"

text \<open>
  Modelled from the spec: \<open>TryGet\<close> of package \<open>trie\<close>, the spec's get. A lookup of an
  absent key returns \<open>nil\<close> with no error: the callers test the value against \<open>nil\<close>.
\<close>

definition TryGet :: "trie \<Rightarrow> bytes \<Rightarrow> bytes option \<times> error option" where
  "TryGet t key = (fmlookup t key, None)"

text \<open>
  Modelled from the spec: \<open>TryUpdate\<close> of package \<open>trie\<close>, the spec's put. As in the
  trie of go-ethereum, which the package continues, a put of an empty value removes the
  key; the values the manager writes (addresses, 8-byte counts) are never empty.
\<close>

definition TryUpdate :: "trie \<Rightarrow> bytes \<Rightarrow> bytes \<Rightarrow> error option \<times> trie" where
  "TryUpdate t key val =
     (if length val \<noteq> 0 then (None, fmupd key val t) else (None, fmdrop key t))"

text \<open>
  Modelled from the spec: \<open>TryDelete\<close> of package \<open>trie\<close>, the spec's delete. Deleting
  an absent key changes nothing.
\<close>

definition TryDelete :: "trie \<Rightarrow> bytes \<Rightarrow> error option \<times> trie" where
  "TryDelete t key = (None, fmdrop key t)"

text \<open>
  Modelled from the spec: \<open>Get\<close> of package \<open>trie\<close>, which is \<open>TryGet\<close> with the error
  written to the log and dropped.
\<close>

definition Get :: "trie \<Rightarrow> bytes \<Rightarrow> bytes option" where
  "Get t key = fst (TryGet t key)"

text \<open>
  Modelled from the spec: \<open>Update\<close> of package \<open>trie\<close>, which is \<open>TryUpdate\<close> with the
  error written to the log and dropped.
\<close>

definition Update :: "trie \<Rightarrow> bytes \<Rightarrow> bytes \<Rightarrow> trie" where
  "Update t key val = snd (TryUpdate t key val)"

text \<open>
  Modelled from the spec: \<open>Delete\<close> of package \<open>trie\<close>, which is \<open>TryDelete\<close> with the
  error written to the log and dropped.
\<close>

definition Delete :: "trie \<Rightarrow> bytes \<Rightarrow> trie" where
  "Delete t key = snd (TryDelete t key)"

text \<open>
  Modelled from the spec: \<open>trie.NewIterator(t.NodeIterator(start))\<close> of package \<open>trie\<close>,
  the spec's \<open>iterate(prefix)\<close>: the finite sequence of the entries whose key has the
  prefix, in key order, taken from the trie as it is when the iterator is made.
\<close>

definition NodeIterator :: "trie \<Rightarrow> bytes \<Rightarrow> (bytes \<times> bytes) list" where
  "NodeIterator t start = sorted_list_of_fmap (fmfilter (prefix start) t)"

section \<open>The consensus state manager\<close>

text \<open>
  \<open>DevoteProtocol\<close> holds six trie handles. This record is the manager read through
  its handles: the six tries they point to, the sixth absent when \<open>voteCntTrie\<close> is nil,
  as it is in a snapshot. A call on the manager writes into the tries the handles point
  to and never assigns a handle, so on one manager a call is a function from this
  record to this record. The pointers themselves come in with \<open>Copy\<close> and
  \<open>RevertToSnapShot\<close>, below. The handles of the backing databases are used by
  \<open>Commit\<close> only, which is given the outcome of every storage call.
\<close>

record DevoteProtocol =
  cycleTrie :: trie
  cacheTrie :: trie
  voteTrie :: trie
  masternodeTrie :: trie
  minerRollingTrie :: trie
  voteCntTrie :: "trie option"

subsection \<open>Delegation\<close>

definition Delegate :: "DevoteProtocol \<Rightarrow> address \<Rightarrow> address \<Rightarrow> error option \<times> DevoteProtocol" where
  "Delegate d delegator masternode =
     (let (masternodeInTrie, err) = TryGet (masternodeTrie d) masternode in
      if err \<noteq> None then (err, d)
      else if masternodeInTrie = None then
        (Some (errors_New ''invalid masternode to delegate''), d)
      else
        let (oldMasternode, err) = TryGet (voteTrie d) delegator in
        if notMissingNode err then (err, d)
        else
          let d1 = (case oldMasternode of
                      None \<Rightarrow> d
                    | Some old \<Rightarrow> d\<lparr>cacheTrie := Delete (cacheTrie d) (old @ delegator)\<rparr>);
              (err, cache') = TryUpdate (cacheTrie d1) (masternode @ delegator) delegator;
              d2 = d1\<lparr>cacheTrie := cache'\<rparr>
          in
          if err \<noteq> None then (err, d2)
          else
            let (err, vote') = TryUpdate (voteTrie d2) delegator masternode
            in (err, d2\<lparr>voteTrie := vote'\<rparr>))"

definition UnDelegate :: "DevoteProtocol \<Rightarrow> address \<Rightarrow> address \<Rightarrow> error option \<times> DevoteProtocol" where
  "UnDelegate d delegator masternode =
     (let (masternodeInTrie, err) = TryGet (masternodeTrie d) masternode in
      if err \<noteq> None then (err, d)
      else if masternodeInTrie = None then
        (Some (errors_New ''invalid masternode to undelegate''), d)
      else
        let (oldMasternode, err) = TryGet (voteTrie d) delegator in
        if err \<noteq> None then (err, d)
        else if \<not> bytes_Equal (Some masternode) oldMasternode then
          (Some (errors_New ''mismatch masternode to undelegate''), d)
        else
          let (err, cache') = TryDelete (cacheTrie d) (masternode @ delegator);
              d1 = d\<lparr>cacheTrie := cache'\<rparr>
          in
          if err \<noteq> None then (err, d1)
          else
            let (err, vote') = TryDelete (voteTrie d1) delegator
            in (err, d1\<lparr>voteTrie := vote'\<rparr>))"

text \<open>
  A run of successful \<open>Delegate\<close> calls of one delegator, one call for each target in
  turn; the run stops at the first call that returns an error.
\<close>

fun Delegate_calls :: "DevoteProtocol \<Rightarrow> address \<Rightarrow> address list \<Rightarrow> error option \<times> DevoteProtocol" where
  "Delegate_calls d delegator [] = (None, d)"
| "Delegate_calls d delegator (masternode # rest) =
     (case Delegate d delegator masternode of
        (None, d') \<Rightarrow> Delegate_calls d' delegator rest
      | (Some err, d') \<Rightarrow> (Some err, d'))"

subsection \<open>Registration\<close>

text \<open>
  Of \<open>masternode.Masternode\<close> the manager reads the identifier, a Go string, and the
  bonded account. \<open>[]byte(s)\<close> is the string's bytes.
\<close>

record Masternode =
  ID :: string
  Account :: address

definition string_bytes :: "string \<Rightarrow> bytes" where
  "string_bytes s = map of_char s"

definition Register :: "DevoteProtocol \<Rightarrow> Masternode \<Rightarrow> error option \<times> DevoteProtocol" where
  "Register d masternode =
     (let masternodeAddr = Account masternode;
          masternodeid = ID masternode;
          masternodeBytes = masternodeAddr;
          (err, t) = TryUpdate (masternodeTrie d) (string_bytes masternodeid) masternodeBytes
      in (err, d\<lparr>masternodeTrie := t\<rparr>))"

text \<open>
  The body of the loop of \<open>Unregister\<close> over the entries the iterator yields:
  \<open>iter.Value\<close> is the delegator, the Cache key is rebuilt from it, and the Vote entry
  is removed when it still names the masternode.
\<close>

fun Unregister_loop :: "(bytes \<times> bytes) list \<Rightarrow> bytes \<Rightarrow> DevoteProtocol \<Rightarrow> error option \<times> DevoteProtocol" where
  "Unregister_loop [] masternode d = (None, d)"
| "Unregister_loop (entry # rest) masternode d =
     (let delegator = snd entry;
          key = masternode @ delegator;
          (err, cache') = TryDelete (cacheTrie d) key;
          d1 = d\<lparr>cacheTrie := cache'\<rparr>
      in
      if notMissingNode err then (err, d1)
      else
        let (v, err) = TryGet (voteTrie d1) delegator in
        if notMissingNode err then (err, d1)
        else if err = None \<and> bytes_Equal v (Some masternode) then
          let (err, vote') = TryDelete (voteTrie d1) delegator;
              d2 = d1\<lparr>voteTrie := vote'\<rparr>
          in
          if notMissingNode err then (err, d2)
          else Unregister_loop rest masternode d2
        else Unregister_loop rest masternode d1)"

definition Unregister :: "DevoteProtocol \<Rightarrow> address \<Rightarrow> error option \<times> DevoteProtocol" where
  "Unregister d masternodeAddr =
     (let masternode = masternodeAddr;
          (err, t) = TryDelete (masternodeTrie d) masternode;
          d1 = d\<lparr>masternodeTrie := t\<rparr>
      in
      if notMissingNode err then (err, d1)
      else Unregister_loop (NodeIterator (cacheTrie d1) masternode) masternode d1)"

text \<open>
  What the loop does to the Cache map and to the Vote map, each on its own: the loop
  above, with every trie call returning the nil error, is these two (lemma
  \<open>Unregister_loop_eq\<close>).
\<close>

primrec loop_cache :: "(bytes \<times> bytes) list \<Rightarrow> bytes \<Rightarrow> trie \<Rightarrow> trie" where
  "loop_cache [] M c = c"
| "loop_cache (e # es) M c = loop_cache es M (fmdrop (M @ snd e) c)"

primrec loop_vote :: "(bytes \<times> bytes) list \<Rightarrow> bytes \<Rightarrow> trie \<Rightarrow> trie" where
  "loop_vote [] M v = v"
| "loop_vote (e # es) M v =
     loop_vote es M (if contents (fmlookup v (snd e)) = M then fmdrop (snd e) v else v)"

subsection \<open>Combined root and checkpoint\<close>

text \<open>
  Packages \<open>rlp\<close> and \<open>sha3\<close> are not among the sources. The hash function \<open>keccak\<close>
  over the bytes written to the hasher, and the root hash \<open>trieHash\<close> of a trie
  (\<open>Trie.Hash\<close>), are parameters: what is proved holds for every choice of them.
\<close>

text \<open>
  Modelled from the spec: \<open>rlp.Encode\<close> of package \<open>rlp\<close> on a \<open>common.Hash\<close>, the
  canonical encoding of a 32-byte root: the string header \<open>0xa0\<close> followed by the
  root's bytes.
\<close>

definition rlp_Encode :: "hash \<Rightarrow> bytes" where
  "rlp_Encode h = 0xa0 # h"

definition Root :: "(bytes \<Rightarrow> hash) \<Rightarrow> (trie \<Rightarrow> hash) \<Rightarrow> DevoteProtocol \<Rightarrow> hash" where
  "Root keccak trieHash d =
     keccak (rlp_Encode (trieHash (cycleTrie d))
           @ rlp_Encode (trieHash (cacheTrie d))
           @ rlp_Encode (trieHash (masternodeTrie d))
           @ rlp_Encode (trieHash (voteTrie d))
           @ rlp_Encode (trieHash (minerRollingTrie d)))"

record DevoteProtocolAtomic =
  CycleHash :: hash
  CacheHash :: hash
  MasternodeHash :: hash
  VoteHash :: hash
  MinerRollingHash :: hash
  VoteCntHash :: hash

text \<open>The zero value of \<open>common.Hash\<close>.\<close>

definition zeroHash :: hash where
  "zeroHash = replicate 32 0"

text \<open>
  \<open>ProtocolAtomic\<close> calls \<open>Hash\<close> on all six handles; on a nil \<open>voteCntTrie\<close> that is a
  nil dereference, the result \<open>None\<close>.
\<close>

definition ProtocolAtomic :: "(trie \<Rightarrow> hash) \<Rightarrow> DevoteProtocol \<Rightarrow> DevoteProtocolAtomic option" where
  "ProtocolAtomic trieHash d =
     (case voteCntTrie d of
        None \<Rightarrow> None
      | Some voteCnt \<Rightarrow>
          Some \<lparr>CycleHash = trieHash (cycleTrie d),
                CacheHash = trieHash (cacheTrie d),
                MasternodeHash = trieHash (masternodeTrie d),
                VoteHash = trieHash (voteTrie d),
                MinerRollingHash = trieHash (minerRollingTrie d),
                VoteCntHash = trieHash voteCnt\<rparr>)"

definition Atomic_Root :: "(bytes \<Rightarrow> hash) \<Rightarrow> DevoteProtocolAtomic \<Rightarrow> hash" where
  "Atomic_Root keccak p =
     keccak (rlp_Encode (CycleHash p)
           @ rlp_Encode (CacheHash p)
           @ rlp_Encode (MasternodeHash p)
           @ rlp_Encode (VoteHash p)
           @ rlp_Encode (MinerRollingHash p)
           @ rlp_Encode (VoteCntHash p))"

subsection \<open>Commit\<close>

text \<open>
  Modelled from the spec: the commit of a trie to its database (\<open>CommitTo\<close>, which
  returns the root and an error) and the commit of that database (\<open>Commit\<close>, which
  returns an error) belong to package \<open>trie\<close>. Their outcomes are the parameters
  \<open>commitTo\<close> and \<open>dbCommit\<close>, indexed by the database handle. \<open>Commit\<close> returns Go's
  pair of a checkpoint pointer and an error, and with it the storage calls it made, in
  order.
\<close>

datatype triedb =
  cycleTriedb | cacheTriedb | voteTriedb | masternodeTriedb | minerRollingTriedb | voteCntTriedb

datatype storage_call = CommitTo_call triedb | Commit_call triedb

definition Commit ::
  "(triedb \<Rightarrow> trie \<Rightarrow> hash \<times> error option) \<Rightarrow> (triedb \<Rightarrow> hash \<Rightarrow> error option) \<Rightarrow>
   DevoteProtocol \<Rightarrow> (DevoteProtocolAtomic option \<times> error option) \<times> storage_call list" where
  "Commit commitTo dbCommit d =
     (let (cycleRoot, err) = commitTo cycleTriedb (cycleTrie d);
          calls = [CommitTo_call cycleTriedb]
      in
      if err \<noteq> None then ((None, err), calls)
      else
        let dberr = dbCommit cycleTriedb cycleRoot;
            calls = calls @ [Commit_call cycleTriedb]
        in
        if dberr \<noteq> None then ((None, err), calls)
        else
          let (cacheRoot, err) = commitTo cacheTriedb (cacheTrie d);
              calls = calls @ [CommitTo_call cacheTriedb]
          in
          if err \<noteq> None then ((None, err), calls)
          else
            let ignored = dbCommit cacheTriedb cacheRoot;
                calls = calls @ [Commit_call cacheTriedb];
                (voteRoot, err) = commitTo voteTriedb (voteTrie d);
                calls = calls @ [CommitTo_call voteTriedb]
            in
            if err \<noteq> None then ((None, err), calls)
            else
              let ignored = dbCommit voteTriedb voteRoot;
                  calls = calls @ [Commit_call voteTriedb];
                  (masternodeRoot, err) = commitTo masternodeTriedb (masternodeTrie d);
                  calls = calls @ [CommitTo_call masternodeTriedb]
              in
              if err \<noteq> None then ((None, err), calls)
              else
                let ignored = dbCommit masternodeTriedb masternodeRoot;
                    calls = calls @ [Commit_call masternodeTriedb];
                    (minerRollingRoot, err) = commitTo minerRollingTriedb (minerRollingTrie d);
                    calls = calls @ [CommitTo_call minerRollingTriedb]
                in
                if err \<noteq> None then ((None, err), calls)
                else
                  let ignored = dbCommit minerRollingTriedb minerRollingRoot;
                      calls = calls @ [Commit_call minerRollingTriedb]
                  in
                  ((Some \<lparr>CycleHash = cycleRoot,
                           CacheHash = cacheRoot,
                           MasternodeHash = masternodeRoot,
                           VoteHash = voteRoot,
                           MinerRollingHash = minerRollingRoot,
                           VoteCntHash = zeroHash\<rparr>, None), calls))"

subsection \<open>Witness list\<close>

text \<open>
  Modelled from the spec: \<open>rlp.EncodeToBytes\<close> on the witnesses, which returns the
  encoding or an error, is the parameter \<open>rlp_EncodeToBytes\<close>. \<open>fmt.Errorf\<close> with the
  verb \<open>%s\<close> appends the error's message.
\<close>

definition SetWitnesses ::
  "('w \<Rightarrow> bytes \<times> error option) \<Rightarrow> DevoteProtocol \<Rightarrow> 'w \<Rightarrow> error option \<times> DevoteProtocol" where
  "SetWitnesses rlp_EncodeToBytes self witnesses =
     (let key = string_bytes ''witness'';
          (witnessesRLP, err) = rlp_EncodeToBytes witnesses
      in
      case err of
        Some e \<Rightarrow>
          (Some (errorString (''failed to encode witnesses to rlp bytes: '' @ Error e)), self)
      | None \<Rightarrow> (None, self\<lparr>cycleTrie := Update (cycleTrie self) key witnessesRLP\<rparr>))"

subsection \<open>Rotation accounting\<close>

definition CycleInterval :: int64 where
  "CycleInterval = 3600"

text \<open>
  Go's \<open>/\<close> on \<open>int64\<close> truncates towards zero and wraps; \<open>sint\<close> reads the 64 bits as
  two's complement. The conversions between \<open>int64\<close> and \<open>uint64\<close> keep the bits.
\<close>

definition int64_div :: "int64 \<Rightarrow> int64 \<Rightarrow> int64" where
  "int64_div a b = word_of_int (sint a sdiv sint b)"

text \<open>\<open>binary.BigEndian.PutUint64\<close> into a fresh 8-byte slice.\<close>

definition PutUint64 :: "64 word \<Rightarrow> bytes" where
  "PutUint64 v =
     [ucast (drop_bit 56 v), ucast (drop_bit 48 v), ucast (drop_bit 40 v),
      ucast (drop_bit 32 v), ucast (drop_bit 24 v), ucast (drop_bit 16 v),
      ucast (drop_bit 8 v), ucast v]"

text \<open>
  \<open>binary.BigEndian.Uint64\<close> reads the first eight bytes; on a shorter slice the bounds
  check panics, the result \<open>None\<close>.
\<close>

definition Uint64 :: "bytes \<Rightarrow> 64 word option" where
  "Uint64 b =
     (if length b < 8 then None
      else Some (ucast (b ! 7) OR push_bit 8 (ucast (b ! 6)) OR push_bit 16 (ucast (b ! 5))
               OR push_bit 24 (ucast (b ! 4)) OR push_bit 32 (ucast (b ! 3))
               OR push_bit 40 (ucast (b ! 2)) OR push_bit 48 (ucast (b ! 1))
               OR push_bit 56 (ucast (b ! 0))))"

text \<open>
  \<open>Rolling\<close> returns nothing; the result is the manager after the call, or \<open>None\<close> when
  reading the stored count panics. \<open>iter.Next()\<close> holds when the iterator yields an
  entry.
\<close>

definition Rolling :: "DevoteProtocol \<Rightarrow> int64 \<Rightarrow> int64 \<Rightarrow> address \<Rightarrow> DevoteProtocol option" where
  "Rolling self parentBlockTime currentBlockTime witness =
     (let currentMinerRollingTrie = minerRollingTrie self;
          currentCycle = int64_div parentBlockTime CycleInterval;
          currentCycleBytes = PutUint64 currentCycle;
          newCycle = int64_div currentBlockTime CycleInterval;
          cnt =
            (if currentCycle = newCycle then
               (case NodeIterator currentMinerRollingTrie currentCycleBytes of
                  [] \<Rightarrow> Some 1
                | entry # others \<Rightarrow>
                    (case Get currentMinerRollingTrie (currentCycleBytes @ witness) of
                       None \<Rightarrow> Some 1
                     | Some cntBytes \<Rightarrow>
                         (case Uint64 cntBytes of
                            None \<Rightarrow> None
                          | Some old \<Rightarrow> Some (old + 1))))
             else Some 1)
      in
      case cnt of
        None \<Rightarrow> None
      | Some cnt \<Rightarrow>
          let newCntBytes = PutUint64 cnt;
              newCycleBytes = PutUint64 newCycle;
              (err, t) = TryUpdate (minerRollingTrie self) (newCycleBytes @ witness) newCntBytes
          in Some (self\<lparr>minerRollingTrie := t\<rparr>))"

subsection \<open>Sequences of mutating operations\<close>

text \<open>
  The mutating operations of the manager as data, and a run of them in order. An error
  a call returns does not stop the run (the manager is then as that call left it); a
  panic does.
\<close>

datatype 'w operation =
  Op_Register Masternode
| Op_Unregister address
| Op_Delegate address address
| Op_UnDelegate address address
| Op_Rolling int64 int64 address
| Op_SetWitnesses 'w

fun apply_operation ::
  "('w \<Rightarrow> bytes \<times> error option) \<Rightarrow> DevoteProtocol \<Rightarrow> 'w operation \<Rightarrow> DevoteProtocol option" where
  "apply_operation enc d (Op_Register m) = Some (snd (Register d m))"
| "apply_operation enc d (Op_Unregister a) = Some (snd (Unregister d a))"
| "apply_operation enc d (Op_Delegate a m) = Some (snd (Delegate d a m))"
| "apply_operation enc d (Op_UnDelegate a m) = Some (snd (UnDelegate d a m))"
| "apply_operation enc d (Op_Rolling p c w) = Rolling d p c w"
| "apply_operation enc d (Op_SetWitnesses ws) = Some (snd (SetWitnesses enc d ws))"

fun apply_operations ::
  "('w \<Rightarrow> bytes \<times> error option) \<Rightarrow> DevoteProtocol \<Rightarrow> 'w operation list \<Rightarrow> DevoteProtocol option" where
  "apply_operations enc d [] = Some d"
| "apply_operations enc d (op # ops) =
     (case apply_operation enc d op of
        None \<Rightarrow> None
      | Some d' \<Rightarrow> apply_operations enc d' ops)"

subsection \<open>Snapshot and revert\<close>

text \<open>
  In Go the fields of \<open>DevoteProtocol\<close> are pointers to \<open>trie.Trie\<close> structs, and
  whether a snapshot is safe from later writes depends on which struct each pointer
  names. The heap of \<open>Trie\<close> structs is a list, a reference is an index into it, and a
  pointer is a reference or nil (\<open>None\<close>). A \<open>Trie\<close> struct holds the root of a trie whose
  nodes are never changed in place, so the struct is the content of the trie.
\<close>

type_synonym ref = nat
type_synonym heap = "trie list"

record DevoteProtocol_ptrs =
  cycleTrie_ptr :: "ref option"
  cacheTrie_ptr :: "ref option"
  voteTrie_ptr :: "ref option"
  masternodeTrie_ptr :: "ref option"
  minerRollingTrie_ptr :: "ref option"
  voteCntTrie_ptr :: "ref option"

text \<open>Reading and writing the struct a pointer names; nothing is read through nil.\<close>

definition load :: "heap \<Rightarrow> ref option \<Rightarrow> trie option" where
  "load hp p =
     (case p of
        None \<Rightarrow> None
      | Some r \<Rightarrow> if r < length hp then Some (hp ! r) else None)"

definition store :: "heap \<Rightarrow> ref option \<Rightarrow> trie \<Rightarrow> heap" where
  "store hp p t =
     (case p of
        None \<Rightarrow> hp
      | Some r \<Rightarrow> hp[r := t])"

text \<open>
  The manager read through its pointers, \<open>None\<close> when one of the five tries the
  operations use cannot be read.
\<close>

definition deref :: "heap \<Rightarrow> DevoteProtocol_ptrs \<Rightarrow> DevoteProtocol option" where
  "deref hp d =
     (case load hp (cycleTrie_ptr d) of None \<Rightarrow> None | Some cycle \<Rightarrow>
      case load hp (cacheTrie_ptr d) of None \<Rightarrow> None | Some cache \<Rightarrow>
      case load hp (voteTrie_ptr d) of None \<Rightarrow> None | Some vote \<Rightarrow>
      case load hp (masternodeTrie_ptr d) of None \<Rightarrow> None | Some masternode \<Rightarrow>
      case load hp (minerRollingTrie_ptr d) of None \<Rightarrow> None | Some minerRolling \<Rightarrow>
        Some \<lparr>cycleTrie = cycle,
              cacheTrie = cache,
              voteTrie = vote,
              masternodeTrie = masternode,
              minerRollingTrie = minerRolling,
              voteCntTrie = load hp (voteCntTrie_ptr d)\<rparr>)"

text \<open>
  A mutating call on the manager \<open>d\<close>: the tries are read through the pointers of \<open>d\<close>,
  the call runs, and what it has made of the five tries is in the structs those
  pointers name. The pointers of \<open>d\<close> stay as they are, and no \<open>Trie\<close> struct is
  allocated. The result is \<open>None\<close> when a trie cannot be read or the call panics.
  This is the call when the five pointers name five separate structs
  (\<open>separate_tries\<close>, below); two fields that name one struct are not modelled, and
  the statements about calls assume separate structs.
\<close>

definition write_back :: "heap \<Rightarrow> DevoteProtocol_ptrs \<Rightarrow> DevoteProtocol \<Rightarrow> heap" where
  "write_back hp d v =
     store (store (store (store (store hp
       (cycleTrie_ptr d) (cycleTrie v))
       (cacheTrie_ptr d) (cacheTrie v))
       (voteTrie_ptr d) (voteTrie v))
       (masternodeTrie_ptr d) (masternodeTrie v))
       (minerRollingTrie_ptr d) (minerRollingTrie v)"

definition call_on ::
  "('w \<Rightarrow> bytes \<times> error option) \<Rightarrow> heap \<Rightarrow> DevoteProtocol_ptrs \<Rightarrow> 'w operation \<Rightarrow> heap option" where
  "call_on enc hp d op =
     (case deref hp d of
        None \<Rightarrow> None
      | Some v \<Rightarrow>
          (case apply_operation enc v op of
             None \<Rightarrow> None
           | Some v' \<Rightarrow> Some (write_back hp d v')))"

fun calls_on ::
  "('w \<Rightarrow> bytes \<times> error option) \<Rightarrow> heap \<Rightarrow> DevoteProtocol_ptrs \<Rightarrow> 'w operation list \<Rightarrow> heap option" where
  "calls_on enc hp d [] = Some hp"
| "calls_on enc hp d (op # ops) =
     (case call_on enc hp d op of
        None \<Rightarrow> None
      | Some hp' \<Rightarrow> calls_on enc hp' d ops)"

text \<open>
  The manager's five pointers, and the managers the constructors make: each of the five
  is non-nil and names a struct of its own on the heap.
\<close>

definition five_ptrs :: "DevoteProtocol_ptrs \<Rightarrow> ref option list" where
  "five_ptrs d =
     [cycleTrie_ptr d, cacheTrie_ptr d, voteTrie_ptr d, masternodeTrie_ptr d,
      minerRollingTrie_ptr d]"

fun allocated :: "heap \<Rightarrow> ref option \<Rightarrow> bool" where
  "allocated hp None = False"
| "allocated hp (Some r) = (r < length hp)"

definition separate_tries :: "heap \<Rightarrow> DevoteProtocol_ptrs \<Rightarrow> bool" where
  "separate_tries hp d = (distinct (five_ptrs d) \<and> list_all (allocated hp) (five_ptrs d))"

text \<open>
  \<open>Copy\<close>: each of \<open>cycleTrie := *d.cycleTrie\<close> and its four siblings reads the struct a
  pointer names into a new variable, and the snapshot takes the addresses of the five
  new variables, which are five new structs at the end of the heap. Every other field
  of the snapshot is nil. Reading through a nil pointer panics, the result \<open>None\<close>.
\<close>

definition Copy :: "heap \<Rightarrow> DevoteProtocol_ptrs \<Rightarrow> (heap \<times> DevoteProtocol_ptrs) option" where
  "Copy hp d =
     (case load hp (cycleTrie_ptr d) of None \<Rightarrow> None | Some cycleTrie_copy \<Rightarrow>
      case load hp (cacheTrie_ptr d) of None \<Rightarrow> None | Some cacheTrie_copy \<Rightarrow>
      case load hp (voteTrie_ptr d) of None \<Rightarrow> None | Some voteTrie_copy \<Rightarrow>
      case load hp (masternodeTrie_ptr d) of None \<Rightarrow> None | Some masternodeTrie_copy \<Rightarrow>
      case load hp (minerRollingTrie_ptr d) of None \<Rightarrow> None | Some minerRollingTrie_copy \<Rightarrow>
        Some (hp @ [cycleTrie_copy, cacheTrie_copy, voteTrie_copy, masternodeTrie_copy,
                   minerRollingTrie_copy],
              \<lparr>cycleTrie_ptr = Some (length hp),
               cacheTrie_ptr = Some (length hp + 1),
               voteTrie_ptr = Some (length hp + 2),
               masternodeTrie_ptr = Some (length hp + 3),
               minerRollingTrie_ptr = Some (length hp + 4),
               voteCntTrie_ptr = None\<rparr>))"

definition Snapshot :: "heap \<Rightarrow> DevoteProtocol_ptrs \<Rightarrow> (heap \<times> DevoteProtocol_ptrs) option" where
  "Snapshot hp d = Copy hp d"

text \<open>
  \<open>RevertToSnapShot\<close> assigns the snapshot's five pointers to the manager: from then on
  manager and snapshot name the same five structs.
\<close>

definition RevertToSnapShot :: "DevoteProtocol_ptrs \<Rightarrow> DevoteProtocol_ptrs \<Rightarrow> DevoteProtocol_ptrs" where
  "RevertToSnapShot d snapshot =
     d\<lparr>cycleTrie_ptr := cycleTrie_ptr snapshot,
       cacheTrie_ptr := cacheTrie_ptr snapshot,
       masternodeTrie_ptr := masternodeTrie_ptr snapshot,
       voteTrie_ptr := voteTrie_ptr snapshot,
       minerRollingTrie_ptr := minerRollingTrie_ptr snapshot\<rparr>"

subsection \<open>Example states\<close>

text \<open>
  Concrete inputs for the instances below: 20-byte addresses, and a manager in which
  the addresses 1 and 2 have a Masternode entry under their own bytes.
\<close>

definition example_addr :: "byte \<Rightarrow> address" where
  "example_addr b = replicate 20 b"

definition example_manager :: DevoteProtocol where
  "example_manager =
     \<lparr>cycleTrie = fmempty,
      cacheTrie = fmempty,
      voteTrie = fmempty,
      masternodeTrie =
        fmupd (example_addr 1) (example_addr 1) (fmupd (example_addr 2) (example_addr 2) fmempty),
      minerRollingTrie = fmempty,
      voteCntTrie = Some fmempty\<rparr>"

text \<open>The same manager after delegator 3 has voted for masternode 1.\<close>

definition example_voted :: DevoteProtocol where
  "example_voted =
     example_manager
       \<lparr>cacheTrie := fmupd (example_addr 1 @ example_addr 3) (example_addr 3) fmempty,
        voteTrie := fmupd (example_addr 3) (example_addr 1) fmempty\<rparr>"

text \<open>
  A masternode with a 16-character identifier, and a manager in which it has been
  registered by \<open>Register\<close> and the delegators 3 and 4 have their Cache and Vote
  entries for its account.
\<close>

definition example_masternode :: Masternode where
  "example_masternode = \<lparr>ID = ''a1b2c3d4e5f60718'', Account = example_addr 1\<rparr>"

definition example_delegated :: DevoteProtocol where
  "example_delegated =
     snd (Register
       \<lparr>cycleTrie = fmempty,
        cacheTrie =
          fmupd (example_addr 1 @ example_addr 3) (example_addr 3)
            (fmupd (example_addr 1 @ example_addr 4) (example_addr 4) fmempty),
        voteTrie =
          fmupd (example_addr 3) (example_addr 1) (fmupd (example_addr 4) (example_addr 1) fmempty),
        masternodeTrie = fmempty,
        minerRollingTrie = fmempty,
        voteCntTrie = Some fmempty\<rparr>
       example_masternode)"

text \<open>
  A heap of six \<open>Trie\<close> structs holding the tries of \<open>example_manager\<close>, the manager
  whose pointers name them, the heap and the snapshot that \<open>Snapshot\<close> makes of the two,
  and that heap after \<open>Delegate(3, 1)\<close> on the manager.
\<close>

definition example_heap :: heap where
  "example_heap = [fmempty, fmempty, fmempty, masternodeTrie example_manager, fmempty, fmempty]"

definition example_ptrs :: DevoteProtocol_ptrs where
  "example_ptrs =
     \<lparr>cycleTrie_ptr = Some 0, cacheTrie_ptr = Some 1, voteTrie_ptr = Some 2,
      masternodeTrie_ptr = Some 3, minerRollingTrie_ptr = Some 4, voteCntTrie_ptr = Some 5\<rparr>"

definition example_snapshot_heap :: heap where
  "example_snapshot_heap =
     example_heap @ [fmempty, fmempty, fmempty, masternodeTrie example_manager, fmempty]"

definition example_snapshot :: DevoteProtocol_ptrs where
  "example_snapshot =
     \<lparr>cycleTrie_ptr = Some 6, cacheTrie_ptr = Some 7, voteTrie_ptr = Some 8,
      masternodeTrie_ptr = Some 9, minerRollingTrie_ptr = Some 10, voteCntTrie_ptr = None\<rparr>"

definition example_written_heap :: heap where
  "example_written_heap =
     [fmempty, cacheTrie example_voted, voteTrie example_voted,
      masternodeTrie example_manager, fmempty, fmempty]
     @ [fmempty, fmempty, fmempty, masternodeTrie example_manager, fmempty]"

section \<open>Facts about the authenticated map\<close>

lemma filter_eq_distinct:
  "distinct xs \<Longrightarrow> x \<in> set xs \<Longrightarrow> filter (\<lambda>y. y = x) xs = [x]"
proof (induction xs)
  case Nil
  then show ?case by simp
next
  case (Cons y ys)
  show ?case
  proof (cases "y = x")
    case True
    with Cons.prems have "x \<notin> set ys" by simp
    then have "filter (\<lambda>y. y = x) ys = []"
      by (auto simp: filter_empty_conv)
    with True show ?thesis by simp
  next
    case False
    with Cons show ?thesis by simp
  qed
qed

lemma NodeIterator_keys:
  "map fst (NodeIterator t p) = sorted_list_of_fset (fmdom (fmfilter (prefix p) t))"
  by (simp add: NodeIterator_def sorted_list_of_fmap_def comp_def)

lemma NodeIterator_distinct: "distinct (map fst (NodeIterator t p))"
  unfolding NodeIterator_keys by (simp add: sorted_list_of_fset.rep_eq)

lemma NodeIterator_set:
  "set (NodeIterator t p) = {(k, v). prefix p k \<and> fmlookup t k = Some v}"
proof -
  have "set (NodeIterator t p) =
      (\<lambda>k. (k, the (fmlookup (fmfilter (prefix p) t) k))) ` fset (fmdom (fmfilter (prefix p) t))"
    by (simp add: NodeIterator_def sorted_list_of_fmap_def)
  also have "\<dots> = {(k, v). prefix p k \<and> fmlookup t k = Some v}"
    by (auto simp: fmlookup_dom_iff image_iff split: if_splits)
  finally show ?thesis .
qed

lemma NodeIterator_empty: "NodeIterator fmempty p = []"
  using NodeIterator_set [of fmempty p] by simp

lemma entries_of_key:
  assumes "fmlookup t k = Some v"
  shows "filter (\<lambda>entry. fst entry = k) (NodeIterator t []) = [(k, v)]"
proof -
  let ?ks = "sorted_list_of_fset (fmdom t)"
  have "distinct ?ks" by (simp add: sorted_list_of_fset.rep_eq)
  moreover have "k \<in> set ?ks" using assms by (simp add: fmdomI)
  ultimately have "filter (\<lambda>y. y = k) ?ks = [k]" by (rule filter_eq_distinct)
  then show ?thesis
    using assms by (simp add: NodeIterator_def sorted_list_of_fmap_def filter_map comp_def)
qed

lemma example_addr_neq: "b \<noteq> c \<Longrightarrow> example_addr b \<noteq> example_addr c"
  by (simp add: example_addr_def)

lemma example_addr_length: "length (example_addr n) = AddressLength"
  by (simp add: example_addr_def AddressLength_def)

section \<open>Facts about delegation\<close>

lemma Delegate_success:
  assumes "fmlookup (masternodeTrie d) M = Some a"
  shows "Delegate d D M =
    (None, d\<lparr>cacheTrie := snd (TryUpdate (case fmlookup (voteTrie d) D of None \<Rightarrow> cacheTrie d
                                    | Some old \<Rightarrow> fmdrop (old @ D) (cacheTrie d)) (M @ D) D),
             voteTrie := snd (TryUpdate (voteTrie d) D M)\<rparr>)"
  using assms
  by (simp add: Delegate_def TryGet_def TryUpdate_def Delete_def TryDelete_def split: option.splits)

lemma Delegate_no_error_iff:
  "fst (Delegate d D M) = None \<longleftrightarrow> fmlookup (masternodeTrie d) M \<noteq> None"
  by (auto simp add: Delegate_def TryGet_def TryUpdate_def Delete_def TryDelete_def Let_def
      errors_New_def split: option.splits)

lemma Delegate_masternodeTrie: "masternodeTrie (snd (Delegate d D M)) = masternodeTrie d"
  by (auto simp add: Delegate_def TryGet_def TryUpdate_def Delete_def TryDelete_def Let_def
      split: option.splits)

text \<open>\<open>example_voted\<close> is what \<open>Delegate(3, 1)\<close> makes of \<open>example_manager\<close>.\<close>

lemma example_voted_reached:
  "Delegate example_manager (example_addr 3) (example_addr 1) = (None, example_voted)"
proof -
  have "fmlookup (masternodeTrie example_manager) (example_addr 1) = Some (example_addr 1)"
    by (simp add: example_manager_def)
  from Delegate_success [OF this, of "example_addr 3"] show ?thesis
    by (simp add: example_voted_def example_manager_def TryUpdate_def example_addr_def)
qed

lemma UnDelegate_mismatch:
  assumes "fmlookup (masternodeTrie d) M = Some a" "contents (fmlookup (voteTrie d) D) \<noteq> M"
  shows "UnDelegate d D M = (Some (errors_New ''mismatch masternode to undelegate''), d)"
  using assms by (auto simp add: UnDelegate_def TryGet_def bytes_Equal_def)

lemma UnDelegate_success:
  assumes "fmlookup (masternodeTrie d) M = Some a" "contents (fmlookup (voteTrie d) D) = M"
  shows "UnDelegate d D M =
    (None, d\<lparr>cacheTrie := fmdrop (M @ D) (cacheTrie d), voteTrie := fmdrop D (voteTrie d)\<rparr>)"
  using assms by (auto simp add: UnDelegate_def TryGet_def TryDelete_def bytes_Equal_def)

lemma Delegate_calls_no_error:
  "\<forall>M \<in> set Ms. fmlookup (masternodeTrie d) M \<noteq> None \<Longrightarrow> fst (Delegate_calls d D Ms) = None"
proof (induction Ms arbitrary: d)
  case Nil
  then show ?case by simp
next
  case (Cons M Ms)
  obtain e d1 where step: "Delegate d D M = (e, d1)" by (cases "Delegate d D M")
  from Cons.prems have "fmlookup (masternodeTrie d) M \<noteq> None" by simp
  with step have e: "e = None"
    using Delegate_no_error_iff [of d D M] by simp
  from step have "masternodeTrie d1 = masternodeTrie d"
    using Delegate_masternodeTrie [of d D M] by simp
  with Cons.prems have "\<forall>M \<in> set Ms. fmlookup (masternodeTrie d1) M \<noteq> None" by simp
  from Cons.IH [OF this] step e show ?case by simp
qed

lemma Delegate_calls_vote:
  assumes "Ms \<noteq> []" and "\<forall>M \<in> set Ms. M \<noteq> []" and "Delegate_calls d D Ms = (None, d')"
  shows "fmlookup (voteTrie d') D = Some (last Ms)"
  using assms
proof (induction Ms arbitrary: d)
  case Nil
  then show ?case by simp
next
  case (Cons M Ms)
  obtain e d1 where step: "Delegate d D M = (e, d1)" by (cases "Delegate d D M")
  with Cons.prems(3) have e: "e = None"
    by (cases e) simp_all
  with step have "fmlookup (masternodeTrie d) M \<noteq> None"
    using Delegate_no_error_iff [of d D M] by simp
  then obtain a where "fmlookup (masternodeTrie d) M = Some a" by auto
  from Delegate_success [OF this, of D] step
  have v1: "voteTrie d1 = snd (TryUpdate (voteTrie d) D M)" by auto
  from step e Cons.prems(3) have rest: "Delegate_calls d1 D Ms = (None, d')" by simp
  show ?case
  proof (cases "Ms = []")
    case True
    with rest have "d' = d1" by simp
    with v1 Cons.prems(2) True show ?thesis by (simp add: TryUpdate_def)
  next
    case False
    with Cons.IH [OF False _ rest] Cons.prems(2) show ?thesis by simp
  qed
qed

section \<open>Delegation: rejected calls\<close>

text \<open>
  C5. When the lookup of masternode \<open>M\<close> by address finds no Masternode entry,
  \<open>Delegate(D, M)\<close> returns the error "invalid masternode to delegate" for every
  delegator \<open>D\<close> and leaves the manager as it was: the Vote and Cache maps are the same
  maps, and so have the same root hash under any hash function \<open>h\<close> of a trie.
\<close>

theorem Delegate_unregistered:
  assumes "TryGet (masternodeTrie d) M = (None, None)"
  shows "fst (Delegate d D M) = Some (errors_New ''invalid masternode to delegate'')
       \<and> snd (Delegate d D M) = d
       \<and> h (voteTrie (snd (Delegate d D M))) = h (voteTrie d)
       \<and> h (cacheTrie (snd (Delegate d D M))) = h (cacheTrie d)"
  using assms by (simp add: Delegate_def)

theorem Delegate_unregistered_witness:
  "TryGet (masternodeTrie
      \<lparr>cycleTrie = fmempty, cacheTrie = fmempty, voteTrie = fmempty,
       masternodeTrie = fmempty, minerRollingTrie = fmempty, voteCntTrie = Some fmempty\<rparr>)
      (replicate 20 2) = (None, None)
   \<and> fst (Delegate
      \<lparr>cycleTrie = fmempty, cacheTrie = fmempty, voteTrie = fmempty,
       masternodeTrie = fmempty, minerRollingTrie = fmempty, voteCntTrie = Some fmempty\<rparr>
      (replicate 20 1) (replicate 20 2))
     = Some (errorString ''invalid masternode to delegate'')"
proof -
  let ?d = "\<lparr>cycleTrie = fmempty, cacheTrie = fmempty, voteTrie = fmempty,
       masternodeTrie = fmempty, minerRollingTrie = fmempty, voteCntTrie = Some fmempty\<rparr>"
  have h: "TryGet (masternodeTrie ?d) (replicate 20 2) = (None, None)"
    by (simp add: TryGet_def)
  from Delegate_unregistered [OF h, of "replicate 20 1" id] h
  show ?thesis by (simp add: errors_New_def)
qed

text \<open>
  C10. When masternode \<open>M\<close> (a 20-byte address) has a Masternode entry under its address
  and delegator \<open>D\<close> has no Vote entry, \<open>UnDelegate(D, M)\<close> returns the error
  "mismatch masternode to undelegate", not a missing-node error, and changes nothing.
\<close>

theorem UnDelegate_absent_vote:
  assumes "length M = AddressLength"
    and "TryGet (masternodeTrie d) M = (Some a, None)"
    and "TryGet (voteTrie d) D = (None, None)"
  shows "UnDelegate d D M = (Some (errors_New ''mismatch masternode to undelegate''), d)"
proof -
  from assms(1) have "M \<noteq> []"
    by (auto simp: AddressLength_def)
  then have "\<not> bytes_Equal (Some M) None"
    by (simp add: bytes_Equal_def)
  with assms(2,3) show ?thesis
    by (simp add: UnDelegate_def)
qed

theorem UnDelegate_absent_vote_witness:
  "length (replicate 20 (2::byte)) = AddressLength
   \<and> TryGet (masternodeTrie
      \<lparr>cycleTrie = fmempty, cacheTrie = fmempty, voteTrie = fmempty,
       masternodeTrie = fmupd (replicate 20 2) (replicate 20 2) fmempty,
       minerRollingTrie = fmempty, voteCntTrie = Some fmempty\<rparr>) (replicate 20 2)
     = (Some (replicate 20 2), None)
   \<and> UnDelegate
      \<lparr>cycleTrie = fmempty, cacheTrie = fmempty, voteTrie = fmempty,
       masternodeTrie = fmupd (replicate 20 2) (replicate 20 2) fmempty,
       minerRollingTrie = fmempty, voteCntTrie = Some fmempty\<rparr>
      (replicate 20 1) (replicate 20 2)
     = (Some (errorString ''mismatch masternode to undelegate''),
      \<lparr>cycleTrie = fmempty, cacheTrie = fmempty, voteTrie = fmempty,
       masternodeTrie = fmupd (replicate 20 2) (replicate 20 2) fmempty,
       minerRollingTrie = fmempty, voteCntTrie = Some fmempty\<rparr>)"
proof -
  let ?d = "\<lparr>cycleTrie = fmempty, cacheTrie = fmempty, voteTrie = fmempty,
       masternodeTrie = fmupd (replicate 20 2) (replicate 20 2) fmempty,
       minerRollingTrie = fmempty, voteCntTrie = Some fmempty\<rparr>"
  have l: "length (replicate 20 (2::byte)) = AddressLength"
    by (simp add: AddressLength_def)
  have m: "TryGet (masternodeTrie ?d) (replicate 20 2) = (Some (replicate 20 2), None)"
    by (simp add: TryGet_def)
  have v: "TryGet (voteTrie ?d) (replicate 20 1) = (None, None)"
    by (simp add: TryGet_def)
  from UnDelegate_absent_vote [OF l m v] l m
  show ?thesis by (simp add: errors_New_def)
qed

section \<open>Delegation: a vote for another masternode\<close>

text \<open>
  C6. When masternodes \<open>M1\<close> and \<open>M2\<close> both have a Masternode entry under their address,
  \<open>M1 \<noteq> M2\<close>, and \<open>Delegate(D, M1)\<close> has succeeded, \<open>UnDelegate(D, M2)\<close> on the resulting
  manager returns the error "mismatch masternode to undelegate" and leaves the manager,
  so every map, as it was.
\<close>

theorem UnDelegate_other_masternode:
  assumes "M1 \<noteq> M2"
    and "TryGet (masternodeTrie d) M1 = (Some a1, None)"
    and "TryGet (masternodeTrie d) M2 = (Some a2, None)"
    and "Delegate d D M1 = (None, d1)"
  shows "UnDelegate d1 D M2 = (Some (errors_New ''mismatch masternode to undelegate''), d1)"
proof -
  from assms(2) have r1: "fmlookup (masternodeTrie d) M1 = Some a1"
    by (simp add: TryGet_def)
  from assms(3) have r2: "fmlookup (masternodeTrie d) M2 = Some a2"
    by (simp add: TryGet_def)
  from assms(4) Delegate_success [OF r1, of D]
  have d1: "masternodeTrie d1 = masternodeTrie d"
       "voteTrie d1 = snd (TryUpdate (voteTrie d) D M1)"
    by auto
  from d1(2) assms(1) have "contents (fmlookup (voteTrie d1) D) \<noteq> M2"
    by (auto simp: TryUpdate_def)
  with r2 d1(1) show ?thesis
    by (simp add: UnDelegate_mismatch)
qed

theorem UnDelegate_other_masternode_witness:
  "example_addr 1 \<noteq> example_addr 2
   \<and> TryGet (masternodeTrie example_manager) (example_addr 1) = (Some (example_addr 1), None)
   \<and> TryGet (masternodeTrie example_manager) (example_addr 2) = (Some (example_addr 2), None)
   \<and> Delegate example_manager (example_addr 3) (example_addr 1)
       = (None, snd (Delegate example_manager (example_addr 3) (example_addr 1)))
   \<and> UnDelegate (snd (Delegate example_manager (example_addr 3) (example_addr 1)))
       (example_addr 3) (example_addr 2)
       = (Some (errors_New ''mismatch masternode to undelegate''),
          snd (Delegate example_manager (example_addr 3) (example_addr 1)))"
proof -
  have n: "example_addr 1 \<noteq> example_addr 2"
    by (rule example_addr_neq) simp
  have r1: "TryGet (masternodeTrie example_manager) (example_addr 1) = (Some (example_addr 1), None)"
    by (simp add: TryGet_def example_manager_def)
  have r2: "TryGet (masternodeTrie example_manager) (example_addr 2) = (Some (example_addr 2), None)"
    using n by (simp add: TryGet_def example_manager_def)
  have "fst (Delegate example_manager (example_addr 3) (example_addr 1)) = None"
    by (simp add: Delegate_no_error_iff example_manager_def)
  then have s: "Delegate example_manager (example_addr 3) (example_addr 1)
       = (None, snd (Delegate example_manager (example_addr 3) (example_addr 1)))"
    by (metis prod.collapse)
  from UnDelegate_other_masternode [OF n r1 r2 s] n r1 r2 s
  show ?thesis by simp
qed

section \<open>Delegation: round trip\<close>

text \<open>
  C7, as the claim states it, is false: a delegator who already holds a vote loses it.
  In \<open>example_voted\<close> delegator 3 votes for masternode 1; \<open>Delegate(3, 2)\<close> followed by
  \<open>UnDelegate(3, 2)\<close>, both successful, leaves a Vote map without the entry of
  delegator 3.
\<close>

theorem Delegate_UnDelegate_roundtrip_counterexample:
  "TryGet (masternodeTrie example_voted) (example_addr 2) = (Some (example_addr 2), None)
   \<and> fst (Delegate example_voted (example_addr 3) (example_addr 2)) = None
   \<and> fst (UnDelegate (snd (Delegate example_voted (example_addr 3) (example_addr 2)))
        (example_addr 3) (example_addr 2)) = None
   \<and> voteTrie (snd (UnDelegate (snd (Delegate example_voted (example_addr 3) (example_addr 2)))
        (example_addr 3) (example_addr 2))) \<noteq> voteTrie example_voted"
proof -
  let ?D = "example_addr 3" and ?M = "example_addr 2"
  have n: "example_addr 1 \<noteq> example_addr 2"
    by (rule example_addr_neq) simp
  have nonempty: "?M \<noteq> []"
    by (simp add: example_addr_def)
  have r: "fmlookup (masternodeTrie example_voted) ?M = Some ?M"
    using n by (simp add: example_voted_def example_manager_def)
  note s1 = Delegate_success [OF r, of ?D]
  let ?d1 = "snd (Delegate example_voted ?D ?M)"
  have r1: "fmlookup (masternodeTrie ?d1) ?M = Some ?M"
    using r by (simp add: s1)
  have v1: "fmlookup (voteTrie ?d1) ?D = Some ?M"
    using nonempty by (simp add: s1 TryUpdate_def)
  then have "contents (fmlookup (voteTrie ?d1) ?D) = ?M" by simp
  note s2 = UnDelegate_success [OF r1 this]
  have "fmlookup (voteTrie (snd (UnDelegate ?d1 ?D ?M))) ?D = None"
    by (simp add: s2)
  moreover have "fmlookup (voteTrie example_voted) ?D = Some (example_addr 1)"
    by (simp add: example_voted_def)
  ultimately have "voteTrie (snd (UnDelegate ?d1 ?D ?M)) \<noteq> voteTrie example_voted"
    by auto
  moreover have "TryGet (masternodeTrie example_voted) ?M = (Some ?M, None)"
    using r by (simp add: TryGet_def)
  moreover have "fst (Delegate example_voted ?D ?M) = None"
    by (simp add: s1)
  moreover have "fst (UnDelegate ?d1 ?D ?M) = None"
    by (simp add: s2)
  ultimately show ?thesis by simp
qed

text \<open>
  C7, amended. When masternode \<open>M\<close> has a Masternode entry under its address and
  delegator \<open>D\<close> has neither a Vote entry nor a Cache entry \<open>M\<parallel>D\<close> before the call,
  \<open>Delegate(D, M)\<close> followed by \<open>UnDelegate(D, M)\<close> both succeed and leave the Vote and
  Cache maps as they were before \<open>Delegate\<close>, with the same root hash under any hash
  function \<open>h\<close> of a trie.
\<close>

theorem Delegate_UnDelegate_roundtrip:
  assumes "TryGet (masternodeTrie d) M = (Some a, None)"
    and "TryGet (voteTrie d) D = (None, None)"
    and "TryGet (cacheTrie d) (M @ D) = (None, None)"
    and "d1 = snd (Delegate d D M)"
    and "d2 = snd (UnDelegate d1 D M)"
  shows "fst (Delegate d D M) = None \<and> fst (UnDelegate d1 D M) = None
       \<and> voteTrie d2 = voteTrie d \<and> cacheTrie d2 = cacheTrie d
       \<and> h (voteTrie d2) = h (voteTrie d) \<and> h (cacheTrie d2) = h (cacheTrie d)"
proof -
  from assms(1) have r: "fmlookup (masternodeTrie d) M = Some a"
    by (simp add: TryGet_def)
  from assms(2) have v: "fmlookup (voteTrie d) D = None"
    by (simp add: TryGet_def)
  from assms(3) have c: "fmlookup (cacheTrie d) (M @ D) = None"
    by (simp add: TryGet_def)
  have drop_v: "fmdrop D (voteTrie d) = voteTrie d"
    using v by (simp add: fmdrop_idle fmdom_notI)
  have drop_c: "fmdrop (M @ D) (cacheTrie d) = cacheTrie d"
    using c by (simp add: fmdrop_idle fmdom_notI)
  have s1: "Delegate d D M = (None, d1)"
    and d1: "d1 = d\<lparr>cacheTrie := snd (TryUpdate (cacheTrie d) (M @ D) D),
                     voteTrie := snd (TryUpdate (voteTrie d) D M)\<rparr>"
    using Delegate_success [OF r, of D] v assms(4) by simp_all
  have eq: "bytes_Equal (Some M) (fmlookup (voteTrie d1) D)"
    using v by (simp add: d1 TryUpdate_def bytes_Equal_def)
  have s2: "UnDelegate d1 D M =
      (None, d1\<lparr>cacheTrie := fmdrop (M @ D) (cacheTrie d1), voteTrie := fmdrop D (voteTrie d1)\<rparr>)"
    using r eq by (simp add: UnDelegate_def TryGet_def TryDelete_def d1)
  have cv: "fmdrop (M @ D) (cacheTrie d1) = cacheTrie d" "fmdrop D (voteTrie d1) = voteTrie d"
    using drop_v drop_c by (auto simp: d1 TryUpdate_def fmdrop_fmupd_same)
  from s1 s2 cv assms(5) show ?thesis by simp
qed

theorem Delegate_UnDelegate_roundtrip_witness:
  "TryGet (masternodeTrie example_manager) (example_addr 1) = (Some (example_addr 1), None)
   \<and> TryGet (voteTrie example_manager) (example_addr 3) = (None, None)
   \<and> TryGet (cacheTrie example_manager) (example_addr 1 @ example_addr 3) = (None, None)
   \<and> fst (Delegate example_manager (example_addr 3) (example_addr 1)) = None
   \<and> fst (UnDelegate (snd (Delegate example_manager (example_addr 3) (example_addr 1)))
        (example_addr 3) (example_addr 1)) = None
   \<and> voteTrie (snd (UnDelegate (snd (Delegate example_manager (example_addr 3) (example_addr 1)))
        (example_addr 3) (example_addr 1))) = fmempty
   \<and> cacheTrie (snd (UnDelegate (snd (Delegate example_manager (example_addr 3) (example_addr 1)))
        (example_addr 3) (example_addr 1))) = fmempty"
proof -
  have r: "TryGet (masternodeTrie example_manager) (example_addr 1) = (Some (example_addr 1), None)"
    by (simp add: TryGet_def example_manager_def)
  have v: "TryGet (voteTrie example_manager) (example_addr 3) = (None, None)"
    by (simp add: TryGet_def example_manager_def)
  have c: "TryGet (cacheTrie example_manager) (example_addr 1 @ example_addr 3) = (None, None)"
    by (simp add: TryGet_def example_manager_def)
  have e: "voteTrie example_manager = fmempty" "cacheTrie example_manager = fmempty"
    by (simp_all add: example_manager_def)
  from Delegate_UnDelegate_roundtrip [OF r v c refl refl, of id] r v c e
  show ?thesis by simp
qed

section \<open>Delegation: one vote for each delegator\<close>

text \<open>
  C8. After a non-empty run of successful \<open>Delegate(D, M)\<close> calls of one delegator \<open>D\<close>,
  the targets being 20-byte addresses, the lookup of \<open>D\<close> in the Vote map returns the
  target of the last call, and the entries of the Vote map with key \<open>D\<close> are that one
  entry.
\<close>

theorem Delegate_calls_single_vote:
  assumes "Ms \<noteq> []"
    and "\<forall>M \<in> set Ms. length M = AddressLength"
    and "Delegate_calls d D Ms = (None, d')"
  shows "TryGet (voteTrie d') D = (Some (last Ms), None)
       \<and> filter (\<lambda>entry. fst entry = D) (NodeIterator (voteTrie d') []) = [(D, last Ms)]"
proof -
  from assms(2) have "\<forall>M \<in> set Ms. M \<noteq> []"
    by (auto simp: AddressLength_def)
  from Delegate_calls_vote [OF assms(1) this assms(3)]
  have "fmlookup (voteTrie d') D = Some (last Ms)" .
  then show ?thesis
    by (simp add: TryGet_def entries_of_key)
qed

theorem Delegate_calls_single_vote_witness:
  "[example_addr 1, example_addr 2, example_addr 1] \<noteq> []
   \<and> list_all (\<lambda>M. length M = AddressLength) [example_addr 1, example_addr 2, example_addr 1]
   \<and> fst (Delegate_calls example_manager (example_addr 3)
        [example_addr 1, example_addr 2, example_addr 1]) = None
   \<and> TryGet (voteTrie (snd (Delegate_calls example_manager (example_addr 3)
        [example_addr 1, example_addr 2, example_addr 1]))) (example_addr 3)
       = (Some (example_addr 1), None)"
proof -
  let ?Ms = "[example_addr 1, example_addr 2, example_addr 1]"
  have a: "?Ms \<noteq> []" by simp
  have b: "\<forall>M \<in> set ?Ms. length M = AddressLength"
    by (simp add: example_addr_length)
  have "\<forall>M \<in> set ?Ms. fmlookup (masternodeTrie example_manager) M \<noteq> None"
    by (simp add: example_manager_def)
  then have e: "fst (Delegate_calls example_manager (example_addr 3) ?Ms) = None"
    by (rule Delegate_calls_no_error)
  then have c: "Delegate_calls example_manager (example_addr 3) ?Ms
      = (None, snd (Delegate_calls example_manager (example_addr 3) ?Ms))"
    by (metis prod.collapse)
  from Delegate_calls_single_vote [OF a b c] e
  show ?thesis by (simp add: example_addr_length)
qed

section \<open>Unregistration\<close>

lemma Unregister_loop_eq:
  "Unregister_loop es M d =
     (None, d\<lparr>cacheTrie := loop_cache es M (cacheTrie d), voteTrie := loop_vote es M (voteTrie d)\<rparr>)"
proof (induction es arbitrary: d)
  case Nil
  show ?case by simp
next
  case (Cons e es)
  show ?case
    by (simp add: Cons.IH TryDelete_def TryGet_def bytes_Equal_def Let_def)
qed

lemma loop_cache_lookup:
  "fmlookup (loop_cache es M c) k =
     (if k \<in> (\<lambda>e. M @ snd e) ` set es then None else fmlookup c k)"
  by (induction es arbitrary: c) auto

lemma loop_vote_lookup:
  "fmlookup (loop_vote es M v) x =
     (if x \<in> snd ` set es \<and> contents (fmlookup v x) = M then None else fmlookup v x)"
proof (induction es arbitrary: v)
  case Nil
  show ?case by simp
next
  case (Cons e es)
  let ?v1 = "if contents (fmlookup v (snd e)) = M then fmdrop (snd e) v else v"
  have step: "fmlookup (loop_vote (e # es) M v) x =
      (if x \<in> snd ` set es \<and> contents (fmlookup ?v1 x) = M then None else fmlookup ?v1 x)"
    using Cons.IH [of ?v1] by simp
  show ?case
  proof (cases "x = snd e")
    case False
    then have "fmlookup ?v1 x = fmlookup v x" by simp
    with step False show ?thesis by simp
  next
    case True
    show ?thesis
    proof (cases "contents (fmlookup v (snd e)) = M")
      case hit: True
      then have "fmlookup ?v1 x = None" using True by simp
      with step True hit show ?thesis by simp
    next
      case miss: False
      then have "fmlookup ?v1 x = fmlookup v x" by simp
      with step True miss show ?thesis by simp
    qed
  qed
qed

lemma Unregister_eq:
  "Unregister d M =
     (None, d\<lparr>masternodeTrie := fmdrop M (masternodeTrie d),
              cacheTrie := loop_cache (NodeIterator (cacheTrie d) M) M (cacheTrie d),
              voteTrie := loop_vote (NodeIterator (cacheTrie d) M) M (voteTrie d)\<rparr>)"
  by (simp add: Unregister_def TryDelete_def Unregister_loop_eq)

lemma loop_cache_again:
  assumes "c' = loop_cache (NodeIterator c M) M c"
  shows "loop_cache (NodeIterator c' M) M c' = c'"
proof (rule fmap_ext)
  fix k
  show "fmlookup (loop_cache (NodeIterator c' M) M c') k = fmlookup c' k"
  proof (cases "k \<in> (\<lambda>e. M @ snd e) ` set (NodeIterator c' M)")
    case False
    then show ?thesis by (simp add: loop_cache_lookup)
  next
    case True
    then obtain k0 v where e: "(k0, v) \<in> set (NodeIterator c' M)" and k: "k = M @ v"
      by auto
    from e have "prefix M k0" "fmlookup c' k0 = Some v"
      by (simp_all add: NodeIterator_set)
    with assms have "fmlookup c k0 = Some v"
      by (simp add: loop_cache_lookup split: if_splits)
    with \<open>prefix M k0\<close> have "(k0, v) \<in> set (NodeIterator c M)"
      by (simp add: NodeIterator_set)
    then have "k \<in> (\<lambda>e. M @ snd e) ` set (NodeIterator c M)"
      using k by force
    then have "fmlookup c' k = None"
      using assms by (simp add: loop_cache_lookup)
    with True show ?thesis by (simp add: loop_cache_lookup)
  qed
qed

lemma loop_vote_again:
  assumes "c' = loop_cache (NodeIterator c M) M c"
    and "v' = loop_vote (NodeIterator c M) M v"
  shows "loop_vote (NodeIterator c' M) M v' = v'"
proof (rule fmap_ext)
  fix x
  show "fmlookup (loop_vote (NodeIterator c' M) M v') x = fmlookup v' x"
  proof (cases "x \<in> snd ` set (NodeIterator c' M) \<and> contents (fmlookup v' x) = M")
    case False
    then show ?thesis by (auto simp: loop_vote_lookup)
  next
    case True
    then obtain k0 where e: "(k0, x) \<in> set (NodeIterator c' M)"
      by auto
    from e have "prefix M k0" "fmlookup c' k0 = Some x"
      by (simp_all add: NodeIterator_set)
    with assms(1) have "fmlookup c k0 = Some x"
      by (simp add: loop_cache_lookup split: if_splits)
    with \<open>prefix M k0\<close> have "(k0, x) \<in> set (NodeIterator c M)"
      by (simp add: NodeIterator_set)
    then have m: "x \<in> snd ` set (NodeIterator c M)"
      by force
    have "fmlookup v' x = None"
    proof (cases "contents (fmlookup v x) = M")
      case True
      with m assms(2) show ?thesis by (simp add: loop_vote_lookup)
    next
      case False
      with assms(2) have "fmlookup v' x = fmlookup v x"
        by (simp add: loop_vote_lookup)
      with False True show ?thesis by simp
    qed
    with True show ?thesis by (simp add: loop_vote_lookup)
  qed
qed

lemma Unregister_again:
  "Unregister (snd (Unregister d M)) M = (None, snd (Unregister d M))"
proof -
  let ?c' = "loop_cache (NodeIterator (cacheTrie d) M) M (cacheTrie d)"
  let ?v' = "loop_vote (NodeIterator (cacheTrie d) M) M (voteTrie d)"
  have c: "loop_cache (NodeIterator ?c' M) M ?c' = ?c'"
    by (rule loop_cache_again) simp
  have v: "loop_vote (NodeIterator ?c' M) M ?v' = ?v'"
    by (rule loop_vote_again) simp_all
  show ?thesis
    by (simp add: Unregister_eq c v)
qed

lemma Unregister_cascade:
  assumes "TryGet (cacheTrie d) (M @ D1) = (Some D1, None)"
    and "TryGet (cacheTrie d) (M @ D2) = (Some D2, None)"
    and "TryGet (voteTrie d) D1 = (Some M, None)"
    and "TryGet (voteTrie d) D2 = (Some M, None)"
    and "d' = snd (Unregister d M)"
  shows "fst (Unregister d M) = None
       \<and> TryGet (masternodeTrie d') M = (None, None)
       \<and> TryGet (cacheTrie d') (M @ D1) = (None, None)
       \<and> TryGet (cacheTrie d') (M @ D2) = (None, None)
       \<and> TryGet (voteTrie d') D1 = (None, None)
       \<and> TryGet (voteTrie d') D2 = (None, None)
       \<and> Unregister d' M = (None, d')"
proof -
  let ?es = "NodeIterator (cacheTrie d) M"
  have e1: "(M @ D1, D1) \<in> set ?es" and e2: "(M @ D2, D2) \<in> set ?es"
    using assms(1,2) by (simp_all add: NodeIterator_set TryGet_def)
  from e1 have k1: "M @ D1 \<in> (\<lambda>e. M @ snd e) ` set ?es" by force
  from e2 have k2: "M @ D2 \<in> (\<lambda>e. M @ snd e) ` set ?es" by force
  from e1 have x1: "D1 \<in> snd ` set ?es" by force
  from e2 have x2: "D2 \<in> snd ` set ?es" by force
  have v1: "contents (fmlookup (voteTrie d) D1) = M" and v2: "contents (fmlookup (voteTrie d) D2) = M"
    using assms(3,4) by (simp_all add: TryGet_def)
  have u: "Unregister d M = (None, d')"
    using assms(5) by (simp add: Unregister_eq)
  have m: "fmlookup (masternodeTrie d') M = None"
    by (simp add: assms(5) Unregister_eq)
  have c: "fmlookup (cacheTrie d') (M @ D1) = None" "fmlookup (cacheTrie d') (M @ D2) = None"
    using k1 k2 by (simp_all add: assms(5) Unregister_eq loop_cache_lookup)
  have v: "fmlookup (voteTrie d') D1 = None" "fmlookup (voteTrie d') D2 = None"
    using x1 x2 v1 v2 by (simp_all add: assms(5) Unregister_eq loop_vote_lookup)
  have a: "Unregister d' M = (None, d')"
    unfolding assms(5) by (rule Unregister_again)
  from u m c v a show ?thesis
    by (simp add: TryGet_def)
qed

text \<open>
  C2. \<open>Register\<close> stores the Masternode entry under the identifier, \<open>Unregister\<close>
  deletes the key made of the account address. In \<open>example_delegated\<close> the masternode
  is registered and has the delegators 3 and 4; \<open>Unregister\<close> of its account returns no
  error, and the lookup of its identifier in the Masternode map still returns its
  account: the entry \<open>Register\<close> made is not removed. (What \<open>Unregister\<close> does remove, and
  that a second call changes nothing, is lemma \<open>Unregister_cascade\<close>.)
\<close>

theorem Unregister_keeps_registered_entry:
  "TryGet (masternodeTrie example_delegated) (string_bytes (ID example_masternode))
     = (Some (Account example_masternode), None)
   \<and> TryGet (cacheTrie example_delegated) (Account example_masternode @ example_addr 3)
     = (Some (example_addr 3), None)
   \<and> TryGet (voteTrie example_delegated) (example_addr 3)
     = (Some (Account example_masternode), None)
   \<and> fst (Unregister example_delegated (Account example_masternode)) = None
   \<and> TryGet (masternodeTrie (snd (Unregister example_delegated (Account example_masternode))))
        (string_bytes (ID example_masternode))
     = (Some (Account example_masternode), None)"
proof -
  have "length (string_bytes (ID example_masternode)) \<noteq> length (Account example_masternode)"
    by (simp add: string_bytes_def example_masternode_def example_addr_def)
  then have k: "Account example_masternode \<noteq> string_bytes (ID example_masternode)"
    by auto
  have a: "Account example_masternode \<noteq> []"
    by (simp add: example_masternode_def example_addr_def)
  have m: "masternodeTrie example_delegated
      = fmupd (string_bytes (ID example_masternode)) (Account example_masternode) fmempty"
    using a by (simp add: example_delegated_def Register_def TryUpdate_def Let_def)
  have c: "fmlookup (cacheTrie example_delegated) (Account example_masternode @ example_addr 3)
      = Some (example_addr 3)"
    by (simp add: example_delegated_def Register_def TryUpdate_def example_masternode_def Let_def
        split: prod.splits if_splits)
  have v: "fmlookup (voteTrie example_delegated) (example_addr 3) = Some (Account example_masternode)"
    by (simp add: example_delegated_def Register_def TryUpdate_def example_masternode_def Let_def
        split: prod.splits if_splits)
  from k m c v show ?thesis
    by (simp add: TryGet_def Unregister_eq)
qed

section \<open>Rotation accounting\<close>

lemma sint_CycleInterval: "sint CycleInterval = 3600"
  by (simp add: CycleInterval_def)

lemma int64_div_nonneg:
  assumes "0 \<le> sint t"
  shows "int64_div t CycleInterval = word_of_int (sint t div 3600)"
  using assms by (simp add: int64_div_def sint_CycleInterval signed_divide_int_def sgn_if)

lemma sint_add_3600:
  assumes "0 \<le> sint (t :: int64)" "sint t + 3600 < 2 ^ 63"
  shows "sint (t + 3600) = sint t + 3600"
proof -
  have "sint (t + 3600) = signed_take_bit 63 (sint t + sint (3600 :: int64))"
    by (simp add: sint_word_ariths)
  also have "sint (3600 :: int64) = 3600" by simp
  also have "signed_take_bit 63 (sint t + 3600) = sint t + 3600"
    using assms by (intro signed_take_bit_int_eq_self) simp_all
  finally show ?thesis .
qed

lemma int64_div_next_cycle:
  assumes "0 \<le> sint (t :: int64)" "sint t + 3600 < 2 ^ 63"
  shows "int64_div (t + 3600) CycleInterval = word_of_int ((sint t + 3600) div 3600)"
    and "int64_div t CycleInterval \<noteq> int64_div (t + 3600) CycleInterval"
proof -
  have s: "sint (t + 3600) = sint t + 3600"
    using assms by (rule sint_add_3600)
  then have "0 \<le> sint (t + 3600)" using assms by simp
  from int64_div_nonneg [OF this] s
  show n: "int64_div (t + 3600) CycleInterval = word_of_int ((sint t + 3600) div 3600)"
    by simp
  have "(sint t + 3600) div 3600 = sint t div 3600 + 1" by simp
  then have "int64_div (t + 3600) CycleInterval = int64_div t CycleInterval + 1"
    using n int64_div_nonneg [OF assms(1)] by simp
  then show "int64_div t CycleInterval \<noteq> int64_div (t + 3600) CycleInterval"
    by simp
qed

lemma length_PutUint64: "length (PutUint64 v) = 8"
  by (simp add: PutUint64_def)

lemma PutUint64_nonempty: "PutUint64 v \<noteq> []"
  by (simp add: PutUint64_def)

lemma Uint64_PutUint64_1: "Uint64 (PutUint64 1) = Some 1"
  by (simp add: Uint64_def PutUint64_def)

lemma NodeIterator_nonempty:
  assumes "fmlookup t k = Some v" "prefix p k"
  shows "NodeIterator t p \<noteq> []"
proof -
  from assms have "(k, v) \<in> set (NodeIterator t p)"
    by (simp add: NodeIterator_set)
  then show ?thesis by auto
qed

lemma Rolling_new_cycle:
  assumes "int64_div p CycleInterval \<noteq> int64_div c CycleInterval"
  shows "Rolling d p c W =
    Some (d\<lparr>minerRollingTrie :=
      fmupd (PutUint64 (int64_div c CycleInterval) @ W) (PutUint64 1) (minerRollingTrie d)\<rparr>)"
  using assms by (simp add: Rolling_def TryUpdate_def PutUint64_nonempty Let_def)

lemma Rolling_first:
  assumes "int64_div p CycleInterval = int64_div c CycleInterval"
    and "NodeIterator (minerRollingTrie d) (PutUint64 (int64_div p CycleInterval)) = []"
  shows "Rolling d p c W =
    Some (d\<lparr>minerRollingTrie :=
      fmupd (PutUint64 (int64_div c CycleInterval) @ W) (PutUint64 1) (minerRollingTrie d)\<rparr>)"
  using assms by (simp add: Rolling_def TryUpdate_def PutUint64_nonempty Let_def)

lemma Rolling_again:
  assumes "int64_div p CycleInterval = int64_div c CycleInterval"
    and "fmlookup (minerRollingTrie d) (PutUint64 (int64_div p CycleInterval) @ W) = Some b"
    and "Uint64 b = Some n"
  shows "Rolling d p c W =
    Some (d\<lparr>minerRollingTrie :=
      fmupd (PutUint64 (int64_div c CycleInterval) @ W) (PutUint64 (n + 1)) (minerRollingTrie d)\<rparr>)"
proof -
  have "NodeIterator (minerRollingTrie d) (PutUint64 (int64_div p CycleInterval)) \<noteq> []"
    using assms(2) by (rule NodeIterator_nonempty) simp
  then obtain e es where
    "NodeIterator (minerRollingTrie d) (PutUint64 (int64_div c CycleInterval)) = e # es"
    using assms(1) by (cases "NodeIterator (minerRollingTrie d) (PutUint64 (int64_div p CycleInterval))") auto
  with assms show ?thesis
    by (simp add: Rolling_def TryUpdate_def PutUint64_nonempty Let_def Get_def TryGet_def)
qed

text \<open>
  C4, as the claim states it, is false for a negative timestamp: Go's division
  truncates towards zero. At \<open>t0 = -1\<close> the first \<open>Rolling\<close> records count 1 under cycle
  0, not under \<open>floor (-1 / 3600) = -1\<close>; and \<open>-1 + 3600 = 3599\<close> is in cycle 0 as well,
  so \<open>Rolling(-1, 3599, W)\<close> counts on, to 2, in place of a reset to 1.
\<close>

theorem Rolling_counts_counterexample:
  "Rolling example_manager (- 1) (- 1) (example_addr 4)
     = Some (example_manager\<lparr>minerRollingTrie :=
         fmupd (PutUint64 0 @ example_addr 4) (PutUint64 1) fmempty\<rparr>)
   \<and> PutUint64 0 @ example_addr 4
     \<noteq> PutUint64 (word_of_int (sint (- 1 :: int64) div 3600)) @ example_addr 4
   \<and> Rolling (example_manager\<lparr>minerRollingTrie :=
         fmupd (PutUint64 0 @ example_addr 4) (PutUint64 1) fmempty\<rparr>)
       (- 1) (- 1 + 3600) (example_addr 4)
     = Some (example_manager\<lparr>minerRollingTrie :=
         fmupd (PutUint64 0 @ example_addr 4) (PutUint64 2) fmempty\<rparr>)"
proof -
  let ?W = "example_addr 4"
  let ?d1 = "example_manager\<lparr>minerRollingTrie := fmupd (PutUint64 0 @ ?W) (PutUint64 1) fmempty\<rparr>"
  have c0: "int64_div (- 1) CycleInterval = 0"
    by (simp add: int64_div_def CycleInterval_def signed_divide_int_def)
  have c1: "int64_div 3599 CycleInterval = 0"
    by (simp add: int64_div_def CycleInterval_def)
  have e: "minerRollingTrie example_manager = fmempty"
    by (simp add: example_manager_def)
  have first: "Rolling example_manager (- 1) (- 1) ?W = Some ?d1"
    using Rolling_first [of "- 1" "- 1" example_manager ?W]
    by (simp add: c0 e NodeIterator_empty)
  have "ucast (- 1 :: 64 word) \<noteq> (0 :: byte)"
    by (simp add: unsigned_minus_1_eq_mask mask_eq_exp_minus_1)
  then have "PutUint64 0 \<noteq> PutUint64 (- 1)"
    by (simp add: PutUint64_def)
  then have key: "PutUint64 0 @ ?W \<noteq> PutUint64 (word_of_int (sint (- 1 :: int64) div 3600)) @ ?W"
    by simp
  have "fmlookup (minerRollingTrie ?d1) (PutUint64 (int64_div (- 1) CycleInterval) @ ?W)
      = Some (PutUint64 1)"
    by (simp add: c0)
  from Rolling_again [OF _ this Uint64_PutUint64_1, of "- 1 + 3600"]
  have again: "Rolling ?d1 (- 1) (- 1 + 3600) ?W
      = Some (example_manager\<lparr>minerRollingTrie := fmupd (PutUint64 0 @ ?W) (PutUint64 2) fmempty\<rparr>)"
    by (simp add: c0 c1)
  from first key again show ?thesis by simp
qed

text \<open>
  C4, amended. For every timestamp \<open>t0 \<ge> 0\<close> for which \<open>t0 + 3600\<close> is an \<open>int64\<close>, and
  every witness \<open>W\<close>: on a rotation trie with no entries \<open>Rolling(t0, t0, W)\<close> records
  count 1 under the key of \<open>(t0 div 3600, W)\<close>; a second \<open>Rolling(t0, t0, W)\<close> records
  count 2 under that key; and on any manager \<open>d'\<close>, whatever its rotation trie holds,
  \<open>Rolling(t0, t0 + 3600, W)\<close> records count 1 under the key of the new cycle
  \<open>((t0 + 3600) div 3600, W)\<close>. The key of \<open>(c, W)\<close> is the big-endian 8 bytes of \<open>c\<close>
  followed by \<open>W\<close>, and a count is stored as its big-endian 8 bytes.
\<close>

theorem Rolling_counts:
  assumes "0 \<le> sint t0" and "sint t0 + 3600 < 2 ^ 63"
    and "minerRollingTrie d = fmempty"
    and "key = PutUint64 (word_of_int (sint t0 div 3600)) @ W"
    and "key' = PutUint64 (word_of_int ((sint t0 + 3600) div 3600)) @ W"
  shows "Rolling d t0 t0 W = Some (d\<lparr>minerRollingTrie := fmupd key (PutUint64 1) fmempty\<rparr>)
       \<and> Rolling (d\<lparr>minerRollingTrie := fmupd key (PutUint64 1) fmempty\<rparr>) t0 t0 W
           = Some (d\<lparr>minerRollingTrie := fmupd key (PutUint64 2) fmempty\<rparr>)
       \<and> Rolling d' t0 (t0 + 3600) W
           = Some (d'\<lparr>minerRollingTrie := fmupd key' (PutUint64 1) (minerRollingTrie d')\<rparr>)"
proof -
  have c: "int64_div t0 CycleInterval = word_of_int (sint t0 div 3600)"
    using assms(1) by (rule int64_div_nonneg)
  have first: "Rolling d t0 t0 W = Some (d\<lparr>minerRollingTrie := fmupd key (PutUint64 1) fmempty\<rparr>)"
    using Rolling_first [of t0 t0 d W] assms(3,4) c by (simp add: NodeIterator_empty)
  let ?d1 = "d\<lparr>minerRollingTrie := fmupd key (PutUint64 1) fmempty\<rparr>"
  have "fmlookup (minerRollingTrie ?d1) (PutUint64 (int64_div t0 CycleInterval) @ W) = Some (PutUint64 1)"
    using assms(4) c by simp
  from Rolling_again [OF refl this Uint64_PutUint64_1]
  have second: "Rolling ?d1 t0 t0 W = Some (d\<lparr>minerRollingTrie := fmupd key (PutUint64 2) fmempty\<rparr>)"
    using assms(4) c by simp
  have third: "Rolling d' t0 (t0 + 3600) W
           = Some (d'\<lparr>minerRollingTrie := fmupd key' (PutUint64 1) (minerRollingTrie d')\<rparr>)"
    using Rolling_new_cycle [OF int64_div_next_cycle(2) [OF assms(1,2)], of d' W]
      int64_div_next_cycle(1) [OF assms(1,2)] assms(5) by simp
  from first second third show ?thesis by simp
qed

theorem Rolling_counts_witness:
  "0 \<le> sint (7300 :: int64) \<and> sint (7300 :: int64) + 3600 < 2 ^ 63
   \<and> minerRollingTrie example_manager = fmempty
   \<and> Rolling example_manager 7300 7300 (example_addr 4)
     = Some (example_manager\<lparr>minerRollingTrie :=
         fmupd (PutUint64 2 @ example_addr 4) (PutUint64 1) fmempty\<rparr>)
   \<and> Rolling (example_manager\<lparr>minerRollingTrie :=
         fmupd (PutUint64 2 @ example_addr 4) (PutUint64 1) fmempty\<rparr>) 7300 7300 (example_addr 4)
     = Some (example_manager\<lparr>minerRollingTrie :=
         fmupd (PutUint64 2 @ example_addr 4) (PutUint64 2) fmempty\<rparr>)
   \<and> Rolling (example_manager\<lparr>minerRollingTrie :=
         fmupd (PutUint64 2 @ example_addr 4) (PutUint64 2) fmempty\<rparr>) 7300 (7300 + 3600)
         (example_addr 4)
     = Some (example_manager\<lparr>minerRollingTrie :=
         fmupd (PutUint64 3 @ example_addr 4) (PutUint64 1)
           (fmupd (PutUint64 2 @ example_addr 4) (PutUint64 2) fmempty)\<rparr>)"
proof -
  have a: "0 \<le> sint (7300 :: int64)" by simp
  have b: "sint (7300 :: int64) + 3600 < 2 ^ 63" by simp
  have c: "minerRollingTrie example_manager = fmempty"
    by (simp add: example_manager_def)
  have k: "PutUint64 2 @ example_addr 4
      = PutUint64 (word_of_int (sint (7300 :: int64) div 3600)) @ example_addr 4"
    by simp
  have k': "PutUint64 3 @ example_addr 4
      = PutUint64 (word_of_int ((sint (7300 :: int64) + 3600) div 3600)) @ example_addr 4"
    by simp
  from Rolling_counts [OF a b c k k',
      of "example_manager\<lparr>minerRollingTrie :=
         fmupd (PutUint64 2 @ example_addr 4) (PutUint64 2) fmempty\<rparr>"] a b c
  show ?thesis by simp
qed

section \<open>Snapshot and revert\<close>

text \<open>
  A call on a manager changes no struct but the five its pointers name, and allocates
  none.
\<close>

lemma length_store: "length (store hp p t) = length hp"
  by (simp add: store_def split: option.splits)

lemma store_other: "Some r \<noteq> p \<Longrightarrow> store hp p t ! r = hp ! r"
  by (cases p) (auto simp: store_def)

lemma store_same: "allocated hp (Some r) \<Longrightarrow> store hp (Some r) t ! r = t"
  by (simp add: store_def)

lemma length_write_back: "length (write_back hp d v) = length hp"
  by (simp add: write_back_def length_store)

lemma write_back_other:
  assumes "Some r \<notin> set (five_ptrs d)"
  shows "write_back hp d v ! r = hp ! r"
  using assms by (simp add: write_back_def five_ptrs_def store_other)

lemma call_on_frame:
  assumes "call_on enc hp d op = Some hp'"
  shows "length hp' = length hp"
    and "Some r \<notin> set (five_ptrs d) \<Longrightarrow> hp' ! r = hp ! r"
  using assms
  by (auto simp: call_on_def length_write_back write_back_other split: option.splits)

lemma calls_on_frame:
  assumes "calls_on enc hp d ops = Some hp'"
  shows "length hp' = length hp \<and> (Some r \<notin> set (five_ptrs d) \<longrightarrow> hp' ! r = hp ! r)"
  using assms
proof (induction ops arbitrary: hp)
  case Nil
  then show ?case by simp
next
  case (Cons op ops)
  from Cons.prems obtain hp1 where
    one: "call_on enc hp d op = Some hp1" and rest: "calls_on enc hp1 d ops = Some hp'"
    by (auto split: option.splits)
  from Cons.IH [OF rest] call_on_frame(1) [OF one] call_on_frame(2) [OF one, of r]
  show ?case by simp
qed

lemma allocated_five:
  assumes "separate_tries hp d" and "Some r \<in> set (five_ptrs d)"
  shows "r < length hp"
proof -
  from assms have "allocated hp (Some r)"
    by (auto simp: separate_tries_def list_all_iff)
  then show ?thesis by simp
qed

lemma Copy_result:
  assumes "deref hp d = Some v"
  shows "Copy hp d =
    Some (hp @ [cycleTrie v, cacheTrie v, voteTrie v, masternodeTrie v, minerRollingTrie v],
          \<lparr>cycleTrie_ptr = Some (length hp),
           cacheTrie_ptr = Some (length hp + 1),
           voteTrie_ptr = Some (length hp + 2),
           masternodeTrie_ptr = Some (length hp + 3),
           minerRollingTrie_ptr = Some (length hp + 4),
           voteCntTrie_ptr = None\<rparr>)"
  using assms by (auto simp: deref_def Copy_def split: option.splits)

lemma separate_tries_deref:
  assumes "separate_tries hp d"
  shows "deref hp d \<noteq> None"
  using assms
  by (cases "cycleTrie_ptr d"; cases "cacheTrie_ptr d"; cases "voteTrie_ptr d";
      cases "masternodeTrie_ptr d"; cases "minerRollingTrie_ptr d")
     (simp_all add: separate_tries_def five_ptrs_def deref_def load_def)

text \<open>
  With pointers that name separate structs, what a call has made of the five tries is
  what is read through the manager's pointers after it. After \<open>RevertToSnapShot\<close> the
  manager's pointers are the snapshot's, so a call on the reverted manager writes into
  the snapshot's own structs.
\<close>

lemma call_on_reads:
  assumes "separate_tries hp d"
    and "deref hp d = Some v"
    and "apply_operation enc v op = Some v'"
  shows "call_on enc hp d op = Some (write_back hp d v')"
    and "load (write_back hp d v') (cycleTrie_ptr d) = Some (cycleTrie v')"
    and "load (write_back hp d v') (cacheTrie_ptr d) = Some (cacheTrie v')"
    and "load (write_back hp d v') (voteTrie_ptr d) = Some (voteTrie v')"
    and "load (write_back hp d v') (masternodeTrie_ptr d) = Some (masternodeTrie v')"
    and "load (write_back hp d v') (minerRollingTrie_ptr d) = Some (minerRollingTrie v')"
proof -
  show "call_on enc hp d op = Some (write_back hp d v')"
    using assms(2,3) by (simp add: call_on_def)
  from assms(1) obtain a b c e f where
    p: "cycleTrie_ptr d = Some a" "cacheTrie_ptr d = Some b" "voteTrie_ptr d = Some c"
       "masternodeTrie_ptr d = Some e" "minerRollingTrie_ptr d = Some f"
    by (cases "cycleTrie_ptr d"; cases "cacheTrie_ptr d"; cases "voteTrie_ptr d";
        cases "masternodeTrie_ptr d"; cases "minerRollingTrie_ptr d")
       (simp_all add: separate_tries_def five_ptrs_def)
  with assms(1) have d: "distinct [a, b, c, e, f]"
    and l: "a < length hp" "b < length hp" "c < length hp" "e < length hp" "f < length hp"
    by (simp_all add: separate_tries_def five_ptrs_def)
  from d l show "load (write_back hp d v') (cycleTrie_ptr d) = Some (cycleTrie v')"
    by (auto simp: p write_back_def store_def load_def nth_list_update)
  from d l show "load (write_back hp d v') (cacheTrie_ptr d) = Some (cacheTrie v')"
    by (auto simp: p write_back_def store_def load_def nth_list_update)
  from d l show "load (write_back hp d v') (voteTrie_ptr d) = Some (voteTrie v')"
    by (auto simp: p write_back_def store_def load_def nth_list_update)
  from d l show "load (write_back hp d v') (masternodeTrie_ptr d) = Some (masternodeTrie v')"
    by (auto simp: p write_back_def store_def load_def nth_list_update)
  from d l show "load (write_back hp d v') (minerRollingTrie_ptr d) = Some (minerRollingTrie v')"
    by (auto simp: p write_back_def store_def load_def nth_list_update)
qed

lemma RevertToSnapShot_five_ptrs: "five_ptrs (RevertToSnapShot d s) = five_ptrs s"
  by (simp add: five_ptrs_def RevertToSnapShot_def)

lemma Snapshot_separate:
  assumes "Snapshot hp d = Some (hp1, s)"
  shows "separate_tries hp1 s"
  using assms
  by (auto simp: Snapshot_def Copy_def separate_tries_def five_ptrs_def split: option.splits)

lemma call_on_reverted_writes_snapshot:
  assumes "r = RevertToSnapShot d s"
    and "separate_tries hp s"
    and "deref hp r = Some v"
    and "apply_operation enc v op = Some v'"
  shows "call_on enc hp r op = Some (write_back hp r v')
       \<and> load (write_back hp r v') (cycleTrie_ptr s) = Some (cycleTrie v')
       \<and> load (write_back hp r v') (cacheTrie_ptr s) = Some (cacheTrie v')
       \<and> load (write_back hp r v') (voteTrie_ptr s) = Some (voteTrie v')
       \<and> load (write_back hp r v') (masternodeTrie_ptr s) = Some (masternodeTrie v')
       \<and> load (write_back hp r v') (minerRollingTrie_ptr s) = Some (minerRollingTrie v')"
proof -
  have same: "five_ptrs r = five_ptrs s"
    unfolding assms(1) by (rule RevertToSnapShot_five_ptrs)
  with assms(2) have sep: "separate_tries hp r"
    by (simp add: separate_tries_def)
  from same have p: "cycleTrie_ptr s = cycleTrie_ptr r" "cacheTrie_ptr s = cacheTrie_ptr r"
      "voteTrie_ptr s = voteTrie_ptr r" "masternodeTrie_ptr s = masternodeTrie_ptr r"
      "minerRollingTrie_ptr s = minerRollingTrie_ptr r"
    by (simp_all add: five_ptrs_def)
  from call_on_reads [OF sep assms(3,4)] show ?thesis
    by (simp add: p)
qed

text \<open>
  Hence a second revert to the same snapshot does not undo a call made after the first
  one: the tries read through the manager's pointers are as that call made them.
\<close>

lemma second_revert_keeps_writes:
  assumes "r = RevertToSnapShot d s"
    and "separate_tries hp s"
    and "deref hp r = Some v"
    and "apply_operation enc v op = Some v'"
  shows "call_on enc hp r op = Some (write_back hp r v')
       \<and> load (write_back hp r v') (cycleTrie_ptr (RevertToSnapShot r s)) = Some (cycleTrie v')
       \<and> load (write_back hp r v') (cacheTrie_ptr (RevertToSnapShot r s)) = Some (cacheTrie v')
       \<and> load (write_back hp r v') (voteTrie_ptr (RevertToSnapShot r s)) = Some (voteTrie v')
       \<and> load (write_back hp r v') (masternodeTrie_ptr (RevertToSnapShot r s))
           = Some (masternodeTrie v')
       \<and> load (write_back hp r v') (minerRollingTrie_ptr (RevertToSnapShot r s))
           = Some (minerRollingTrie v')"
  using call_on_reverted_writes_snapshot [OF assms]
  by (simp add: RevertToSnapShot_def)

lemma example_deref: "deref example_heap example_ptrs = Some example_manager"
  by (simp add: deref_def load_def example_heap_def example_ptrs_def example_manager_def)

lemma example_separate: "separate_tries example_heap example_ptrs"
  by (simp add: separate_tries_def five_ptrs_def example_heap_def example_ptrs_def)

lemma example_snapshot_made:
  "Snapshot example_heap example_ptrs = Some (example_snapshot_heap, example_snapshot)"
  using Copy_result [OF example_deref]
  by (simp add: Snapshot_def example_manager_def example_heap_def example_snapshot_heap_def
      example_snapshot_def)

lemma example_call:
  "calls_on enc example_snapshot_heap example_ptrs
     [Op_Delegate (example_addr 3) (example_addr 1)]
   = Some example_written_heap"
proof -
  have d1: "deref example_snapshot_heap example_ptrs = Some example_manager"
    by (simp add: deref_def load_def example_snapshot_heap_def example_heap_def example_ptrs_def
        example_manager_def)
  have c: "call_on enc example_snapshot_heap example_ptrs
      (Op_Delegate (example_addr 3) (example_addr 1))
      = Some (write_back example_snapshot_heap example_ptrs example_voted)"
    by (simp add: call_on_def d1 example_voted_reached)
  have w: "write_back example_snapshot_heap example_ptrs example_voted = example_written_heap"
    by (simp add: write_back_def store_def example_ptrs_def example_heap_def example_voted_def
        example_manager_def example_snapshot_heap_def example_written_heap_def)
  from c w show ?thesis by simp
qed

text \<open>
  C9. Let the manager's five trie pointers name separate structs, as the constructors
  make them, and let \<open>v\<close> be the manager read through its pointers. Take
  \<open>s = Snapshot()\<close>, run on the manager any finite sequence of \<open>Register\<close>,
  \<open>Unregister\<close>, \<open>Delegate\<close>, \<open>UnDelegate\<close>, \<open>Rolling\<close> and \<open>SetWitnesses\<close> calls that
  returns, and call \<open>RevertToSnapShot(s)\<close>: the cycle, cache, masternode, vote and
  rotation tries read through the manager's pointers are those of \<open>v\<close>, so each has the
  root hash it had when the snapshot was taken, under any hash function \<open>hf\<close> of a trie.
\<close>

theorem RevertToSnapShot_restores:
  assumes "separate_tries hp d"
    and "deref hp d = Some v"
    and "Snapshot hp d = Some (hp1, s)"
    and "calls_on enc hp1 d ops = Some hp2"
    and "r = RevertToSnapShot d s"
  shows "load hp2 (cycleTrie_ptr r) = Some (cycleTrie v)
       \<and> load hp2 (cacheTrie_ptr r) = Some (cacheTrie v)
       \<and> load hp2 (masternodeTrie_ptr r) = Some (masternodeTrie v)
       \<and> load hp2 (voteTrie_ptr r) = Some (voteTrie v)
       \<and> load hp2 (minerRollingTrie_ptr r) = Some (minerRollingTrie v)
       \<and> map_option hf (load hp2 (cycleTrie_ptr r)) = Some (hf (cycleTrie v))
       \<and> map_option hf (load hp2 (cacheTrie_ptr r)) = Some (hf (cacheTrie v))
       \<and> map_option hf (load hp2 (masternodeTrie_ptr r)) = Some (hf (masternodeTrie v))
       \<and> map_option hf (load hp2 (voteTrie_ptr r)) = Some (hf (voteTrie v))
       \<and> map_option hf (load hp2 (minerRollingTrie_ptr r)) = Some (hf (minerRollingTrie v))"
proof -
  let ?n = "length hp"
  let ?copies = "[cycleTrie v, cacheTrie v, voteTrie v, masternodeTrie v, minerRollingTrie v]"
  from assms(3) Copy_result [OF assms(2)]
  have hp1: "hp1 = hp @ ?copies"
    and s: "s = \<lparr>cycleTrie_ptr = Some ?n, cacheTrie_ptr = Some (?n + 1),
           voteTrie_ptr = Some (?n + 2), masternodeTrie_ptr = Some (?n + 3),
           minerRollingTrie_ptr = Some (?n + 4), voteCntTrie_ptr = None\<rparr>"
    by (simp_all add: Snapshot_def)
  have len: "length hp2 = ?n + 5"
    using calls_on_frame [OF assms(4), of 0] hp1 by simp
  have fresh: "Some (?n + i) \<notin> set (five_ptrs d)" for i
    using allocated_five [OF assms(1), of "?n + i"] by auto
  have kept: "hp2 ! (?n + i) = hp1 ! (?n + i)" for i
    using calls_on_frame [OF assms(4), of "?n + i"] fresh [of i] by simp
  have cell: "i < 5 \<Longrightarrow> load hp2 (Some (?n + i)) = Some (?copies ! i)" for i
    using kept [of i] len by (simp add: load_def hp1 nth_append)
  have c0: "load hp2 (Some ?n) = Some (cycleTrie v)"
    using cell [of 0] by simp
  have c1: "load hp2 (Some (?n + 1)) = Some (cacheTrie v)"
    using cell [of 1] by simp
  have c2: "load hp2 (Some (?n + 2)) = Some (voteTrie v)"
    using cell [of 2] by simp
  have c3: "load hp2 (Some (?n + 3)) = Some (masternodeTrie v)"
    using cell [of 3] by simp
  have c4: "load hp2 (Some (?n + 4)) = Some (minerRollingTrie v)"
    using cell [of 4] by simp
  from c0 c1 c2 c3 c4 show ?thesis
    by (simp add: assms(5) s RevertToSnapShot_def)
qed

theorem RevertToSnapShot_restores_witness:
  "separate_tries example_heap example_ptrs
   \<and> deref example_heap example_ptrs = Some example_manager
   \<and> Snapshot example_heap example_ptrs = Some (example_snapshot_heap, example_snapshot)
   \<and> calls_on (\<lambda>ws. (concat ws, None)) example_snapshot_heap example_ptrs
        [Op_Delegate (example_addr 3) (example_addr 1)] = Some example_written_heap
   \<and> load example_written_heap (cacheTrie_ptr example_ptrs)
        = Some (fmupd (example_addr 1 @ example_addr 3) (example_addr 3) fmempty)
   \<and> load example_written_heap (cacheTrie_ptr (RevertToSnapShot example_ptrs example_snapshot))
        = Some fmempty
   \<and> load example_written_heap (voteTrie_ptr (RevertToSnapShot example_ptrs example_snapshot))
        = Some fmempty"
proof -
  have w: "load example_written_heap (cacheTrie_ptr example_ptrs)
        = Some (fmupd (example_addr 1 @ example_addr 3) (example_addr 3) fmempty)"
    by (simp add: load_def example_written_heap_def example_ptrs_def example_voted_def)
  have e: "cacheTrie example_manager = fmempty" "voteTrie example_manager = fmempty"
    by (simp_all add: example_manager_def)
  from RevertToSnapShot_restores [OF example_separate example_deref example_snapshot_made
      example_call [of "\<lambda>ws. (concat ws, None)"] refl, of id]
    example_separate example_deref example_snapshot_made
    example_call [of "\<lambda>ws. (concat ws, None)"] w e
  show ?thesis by simp
qed


section \<open>Combined root\<close>

lemma Root_deterministic:
  assumes "trieHash (cycleTrie d1) = trieHash (cycleTrie d2)"
    and "trieHash (cacheTrie d1) = trieHash (cacheTrie d2)"
    and "trieHash (masternodeTrie d1) = trieHash (masternodeTrie d2)"
    and "trieHash (voteTrie d1) = trieHash (voteTrie d2)"
    and "trieHash (minerRollingTrie d1) = trieHash (minerRollingTrie d2)"
  shows "Root keccak trieHash d1 = Root keccak trieHash d2"
  using assms by (simp add: Root_def)

lemma Atomic_Root_deterministic:
  assumes "CycleHash p1 = CycleHash p2" and "CacheHash p1 = CacheHash p2"
    and "MasternodeHash p1 = MasternodeHash p2" and "VoteHash p1 = VoteHash p2"
    and "MinerRollingHash p1 = MinerRollingHash p2" and "VoteCntHash p1 = VoteCntHash p2"
  shows "Atomic_Root keccak p1 = Atomic_Root keccak p2"
  using assms by (simp add: Atomic_Root_def)

text \<open>
  The checkpoint of a manager carries the root of the vote-tally trie as its sixth
  sub-root, and the checkpoint's combined root depends on it when the hash function
  has no collision.
\<close>

lemma ProtocolAtomic_VoteCntHash:
  "map_option VoteCntHash (ProtocolAtomic trieHash (d\<lparr>voteCntTrie := Some t\<rparr>)) = Some (trieHash t)"
  by (simp add: ProtocolAtomic_def)

lemma Atomic_Root_reads_VoteCntHash:
  assumes "inj keccak"
    and "length (VoteCntHash p1) = length (VoteCntHash p2)"
    and "Atomic_Root keccak p1 = Atomic_Root keccak p2"
  shows "VoteCntHash p1 = VoteCntHash p2"
proof -
  let ?front = "\<lambda>p. rlp_Encode (CycleHash p) @ rlp_Encode (CacheHash p)
      @ rlp_Encode (MasternodeHash p) @ rlp_Encode (VoteHash p) @ rlp_Encode (MinerRollingHash p)"
  from assms(1,3) have "?front p1 @ rlp_Encode (VoteCntHash p1) = ?front p2 @ rlp_Encode (VoteCntHash p2)"
    by (simp add: Atomic_Root_def inj_eq)
  moreover have "length (rlp_Encode (VoteCntHash p1)) = length (rlp_Encode (VoteCntHash p2))"
    using assms(2) by (simp add: rlp_Encode_def)
  ultimately have "rlp_Encode (VoteCntHash p1) = rlp_Encode (VoteCntHash p2)"
    by (metis append_eq_append_conv)
  then show ?thesis by (simp add: rlp_Encode_def)
qed

text \<open>
  C1. \<open>DevoteProtocol.Root\<close> hashes five sub-roots and never reads \<open>voteCntTrie\<close>, the
  sixth, which \<open>DevoteProtocolAtomic.Root\<close> does hash: two managers that differ in the
  vote-tally trie alone, whatever the two vote-tally roots are, have the same combined
  root, for every hash function.
\<close>

theorem Root_ignores_voteCntTrie:
  "Root keccak trieHash (d\<lparr>voteCntTrie := Some t1\<rparr>)
     = Root keccak trieHash (d\<lparr>voteCntTrie := Some t2\<rparr>)"
  by (simp add: Root_def)

section \<open>Commit\<close>

lemma Commit_trie_error:
  assumes "snd (commitTo cycleTriedb (cycleTrie d)) = Some e"
  shows "Commit commitTo dbCommit d = ((None, Some e), [CommitTo_call cycleTriedb])"
  using assms by (cases "commitTo cycleTriedb (cycleTrie d)") (simp add: Commit_def)

text \<open>
  C3. Every trie commit succeeds and returns the trie's root. When the commit of the
  cache database fails, \<open>Commit\<close> makes all ten storage calls and returns a checkpoint
  with the nil error; when the commit of the cycle database fails, \<open>Commit\<close> stops, yet
  what it returns is the nil checkpoint with the nil error.
\<close>

theorem Commit_loses_database_error:
  "Commit (\<lambda>db t. (trieHash t, None))
      (\<lambda>db root. if db = cacheTriedb then Some (errorString ''write failed'') else None) d
     = ((Some \<lparr>CycleHash = trieHash (cycleTrie d),
               CacheHash = trieHash (cacheTrie d),
               MasternodeHash = trieHash (masternodeTrie d),
               VoteHash = trieHash (voteTrie d),
               MinerRollingHash = trieHash (minerRollingTrie d),
               VoteCntHash = zeroHash\<rparr>, None),
        [CommitTo_call cycleTriedb, Commit_call cycleTriedb,
         CommitTo_call cacheTriedb, Commit_call cacheTriedb,
         CommitTo_call voteTriedb, Commit_call voteTriedb,
         CommitTo_call masternodeTriedb, Commit_call masternodeTriedb,
         CommitTo_call minerRollingTriedb, Commit_call minerRollingTriedb])
   \<and> Commit (\<lambda>db t. (trieHash t, None))
      (\<lambda>db root. if db = cycleTriedb then Some (errorString ''write failed'') else None) d
     = ((None, None), [CommitTo_call cycleTriedb, Commit_call cycleTriedb])"
  by (simp add: Commit_def)

end
